theory Spec2Isabelle
  imports Complex_Main "HOL-Library.Char_ord" "HOL-Library.List_Lexorder" "HOL-Library.Sublist"
begin

section \<open>Strings, decimal numerals and JSON text\<close>

text \<open>A Python \<open>str\<close> is a list of code points; here a string is a list of 8-bit
  characters, read as the code points 0..255.\<close>

definition digit_char :: "nat \<Rightarrow> char" where
  "digit_char n = ''0123456789'' ! (n mod 10)"

function show_nat :: "nat \<Rightarrow> string" where
  "show_nat n = (if n < 10 then [digit_char n] else show_nat (n div 10) @ [digit_char (n mod 10)])"
  by pat_completeness auto
termination
  by (relation "measure id") auto

text \<open>\<open>str(i)\<close> of a Python int.\<close>

definition show_int :: "int \<Rightarrow> string" where
  "show_int i = (if i < 0 then CHR ''-'' # show_nat (nat (- i)) else show_nat (nat i))"

definition hex_digit :: "nat \<Rightarrow> char" where
  "hex_digit n = ''0123456789abcdef'' ! (n mod 16)"

text \<open>\<open>json.dumps\<close> with its default \<open>ensure_ascii=True\<close>: the quote and the backslash
  are escaped, the five short control escapes are used, and every other character outside
  the printable ASCII range becomes \<open>\uXXXX\<close>.\<close>

definition json_escape_char :: "char \<Rightarrow> string" where
  "json_escape_char c =
    (let n = (of_char c :: nat) in
     if n = 0x22 then [CHR 0x5C, CHR 0x22]
     else if n = 0x5C then [CHR 0x5C, CHR 0x5C]
     else if n = 0x0A then [CHR 0x5C, CHR ''n'']
     else if n = 0x0D then [CHR 0x5C, CHR ''r'']
     else if n = 0x09 then [CHR 0x5C, CHR ''t'']
     else if n = 0x08 then [CHR 0x5C, CHR ''b'']
     else if n = 0x0C then [CHR 0x5C, CHR ''f'']
     else if 0x20 \<le> n \<and> n \<le> 0x7E then [c]
     else [CHR 0x5C, CHR ''u'', CHR ''0'', CHR ''0'', hex_digit (n div 16), hex_digit n])"

definition json_string :: "string \<Rightarrow> string" where
  "json_string s = CHR 0x22 # concat (map json_escape_char s) @ [CHR 0x22]"

fun join :: "string \<Rightarrow> string list \<Rightarrow> string" where
  "join sep [] = []"
| "join sep [x] = x"
| "join sep (x # y # ys) = x @ sep @ join sep (y # ys)"

text \<open>The values \<open>model_dump()\<close> produces for the models of this repository: \<open>None\<close>,
  ints, strings, lists and dicts with string keys (in insertion order).\<close>

datatype json =
  JNull
| JInt int
| JStr string
| JList "json list"
| JObj "(string \<times> json) list"

text \<open>\<open>json.dumps(data, sort_keys=sk)\<close> with the default separators.\<close>

function json_dumps :: "bool \<Rightarrow> json \<Rightarrow> string" where
  "json_dumps sk JNull = ''null''"
| "json_dumps sk (JInt i) = show_int i"
| "json_dumps sk (JStr s) = json_string s"
| "json_dumps sk (JList xs) = ''['' @ join '', '' (map (json_dumps sk) xs) @ '']''"
| "json_dumps sk (JObj kvs) =
     ''{'' @ join '', ''
        (map (\<lambda>(k, v). json_string k @ '': '' @ json_dumps sk v)
           (if sk then sort_key fst kvs else kvs)) @ ''}''"
  by pat_completeness auto
termination
proof (relation "measure (\<lambda>(sk, j). size j)", goal_cases)
  case 1
  show ?case by simp
next
  case (2 sk xs x)
  then show ?case
    by (simp add: less_Suc_eq_le size_list_estimation')
next
  case (3 sk kvs kv k v)
  then have "kv \<in> set kvs"
    by (simp split: if_splits)
  then have "size_prod (\<lambda>x. 0) size kv \<le> size_list (size_prod (\<lambda>x. 0) size) kvs"
    by (rule size_list_estimation') simp
  with 3(2) show ?case by auto
qed

text \<open>\<open>str.isspace\<close> (and \<open>\s\<close> of the \<open>re\<close> module) on the code points below 256.\<close>

definition py_isspace :: "char \<Rightarrow> bool" where
  "py_isspace c =
    (let n = (of_char c :: nat) in
     (9 \<le> n \<and> n \<le> 13) \<or> (28 \<le> n \<and> n \<le> 32) \<or> n = 133 \<or> n = 160)"

text \<open>\<open>str.strip()\<close>\<close>

definition py_strip :: "string \<Rightarrow> string" where
  "py_strip s = rev (dropWhile py_isspace (rev (dropWhile py_isspace s)))"


section \<open>Citations (engine/search/models.py)\<close>

datatype source_tag = Pubmed | Openalex

definition source_name :: "source_tag \<Rightarrow> string" where
  "source_name s = (case s of Pubmed \<Rightarrow> ''pubmed'' | Openalex \<Rightarrow> ''openalex'')"

record Citation =
  pmid :: "string option"
  doi :: "string option"
  title :: string
  abstract :: "string option"
  authors :: "string list"
  journal :: "string option"
  year :: "int option"
  source :: source_tag
  raw_data :: "(string \<times> json) list"

text \<open>Python truthiness of an \<open>Optional[str]\<close>: neither \<open>None\<close> nor the empty string.\<close>

definition truthy :: "string option \<Rightarrow> bool" where
  "truthy s = (s \<noteq> None \<and> s \<noteq> Some [])"


section \<open>Review specification and protocol hashing (engine/core/review_spec.py)\<close>

record ExtractionField =
  ef_name :: string
  ef_description :: string
  ef_type :: string
  ef_tier :: int
  ef_enum_values :: "string list option"

record ExtractionSchema =
  schema_fields :: "ExtractionField list"

record PICO =
  population :: string
  intervention :: string
  comparator :: string
  outcomes :: "string list"

record SearchStrategy =
  databases :: "string list"
  query_terms :: "string list"
  date_range :: "int list"

record ScreeningCriteria =
  inclusion :: "string list"
  exclusion :: "string list"

record ReviewSpec =
  rs_title :: string
  rs_version :: string
  rs_authors :: "string list"
  rs_date :: "int \<times> int \<times> int"
  prospero_id :: "string option"
  pico :: PICO
  search_strategy :: SearchStrategy
  screening_criteria :: ScreeningCriteria
  extraction_schema :: ExtractionSchema

text \<open>\<open>model_dump()\<close> of the two hashed sub-models: a dict with the fields in the order
  of their declaration.\<close>

definition dump_ScreeningCriteria :: "ScreeningCriteria \<Rightarrow> json" where
  "dump_ScreeningCriteria c =
    JObj [(''inclusion'', JList (map JStr (inclusion c))),
          (''exclusion'', JList (map JStr (exclusion c)))]"

definition dump_ExtractionField :: "ExtractionField \<Rightarrow> json" where
  "dump_ExtractionField f =
    JObj [(''name'', JStr (ef_name f)),
          (''description'', JStr (ef_description f)),
          (''type'', JStr (ef_type f)),
          (''tier'', JInt (ef_tier f)),
          (''enum_values'',
             (case ef_enum_values f of None \<Rightarrow> JNull | Some vs \<Rightarrow> JList (map JStr vs)))]"

definition dump_ExtractionSchema :: "ExtractionSchema \<Rightarrow> json" where
  "dump_ExtractionSchema s = JObj [(''fields'', JList (map dump_ExtractionField (schema_fields s)))]"

text \<open>\<open>_canonical_hash\<close>: the digest of the sorted-key JSON text. The text is pure
  ASCII, so \<open>.encode()\<close> leaves it as it is. \<open>hashlib.sha256(...).hexdigest()\<close> is the
  parameter \<open>sha256\<close>.\<close>

definition canonical_hash :: "(string \<Rightarrow> string) \<Rightarrow> json \<Rightarrow> string" where
  "canonical_hash sha256 data = sha256 (json_dumps True data)"

definition screening_hash :: "(string \<Rightarrow> string) \<Rightarrow> ReviewSpec \<Rightarrow> string" where
  "screening_hash sha256 spec =
    canonical_hash sha256 (dump_ScreeningCriteria (screening_criteria spec))"

definition extraction_hash :: "(string \<Rightarrow> string) \<Rightarrow> ReviewSpec \<Rightarrow> string" where
  "extraction_hash sha256 spec =
    canonical_hash sha256 (dump_ExtractionSchema (extraction_schema spec))"

section \<open>Agent models (engine/agents/models.py)\<close>

text \<open>A confidence is a float in the source; the model keeps it as a rational.\<close>

record EvidenceSpan =
  field_name :: string
  span_value :: string
  source_snippet :: string
  confidence :: rat
  tier :: int


section \<open>Review store (engine/core/database.py)\<close>

subsection \<open>Paper lifecycle tables\<close>

text \<open>Statuses are plain Python strings in the source; they stay strings here, so that an
  unrecognised status name is an input the model can receive.\<close>

definition STATUSES :: "string list" where
  "STATUSES =
    [''INGESTED'', ''SCREENED_IN'', ''SCREENED_OUT'', ''SCREEN_FLAGGED'',
     ''PDF_ACQUIRED'', ''PARSED'', ''EXTRACTED'', ''AUDITED'']"

text \<open>The dict \<open>ALLOWED_TRANSITIONS\<close>, as an association list in the order of the source.\<close>

definition ALLOWED_TRANSITIONS :: "(string \<times> string list) list" where
  "ALLOWED_TRANSITIONS =
    [(''INGESTED'', [''SCREENED_IN'', ''SCREENED_OUT'', ''SCREEN_FLAGGED'']),
     (''SCREENED_IN'', [''PDF_ACQUIRED'']),
     (''SCREEN_FLAGGED'', [''SCREENED_IN'', ''SCREENED_OUT'']),
     (''PDF_ACQUIRED'', [''PARSED'']),
     (''PARSED'', [''EXTRACTED'']),
     (''EXTRACTED'', [''AUDITED'']),
     (''SCREENED_OUT'', []),
     (''AUDITED'', [])]"

text \<open>\<open>ALLOWED_TRANSITIONS.get(current, set())\<close>\<close>

definition allowed_from :: "string \<Rightarrow> string list" where
  "allowed_from current =
    (case map_of ALLOWED_TRANSITIONS current of None \<Rightarrow> [] | Some s \<Rightarrow> s)"

subsection \<open>Rows of the tables\<close>

text \<open>One record per table of \<open>_SCHEMA\<close>; a nullable column is an option. Timestamps are
  the ISO strings of \<open>_now()\<close>, passed in by the caller of each operation.\<close>

record paper =
  p_id :: int
  p_pmid :: "string option"
  p_doi :: "string option"
  p_title :: string
  p_abstract :: "string option"
  p_authors :: string
  p_journal :: "string option"
  p_year :: "int option"
  p_source :: string
  p_status :: string
  p_created_at :: string
  p_updated_at :: string

record screening_row =
  sd_id :: int
  sd_paper_id :: int
  sd_pass_number :: int
  sd_decision :: string
  sd_rationale :: string
  sd_model :: string
  sd_decided_at :: string

record asset_row =
  fa_id :: int
  fa_paper_id :: int
  fa_pdf_path :: string
  fa_pdf_hash :: string
  fa_parsed_text_path :: "int \<times> int"
  fa_parsed_text_version :: int
  fa_parser_used :: string
  fa_parsed_at :: string

record extraction_row =
  ex_id :: int
  ex_paper_id :: int
  ex_schema_hash :: string
  ex_extracted_data :: "EvidenceSpan list"
  ex_reasoning_trace :: string
  ex_model :: string
  ex_extracted_at :: string

record span_row =
  es_id :: int
  es_extraction_id :: int
  es_field_name :: string
  es_value :: string
  es_source_snippet :: string
  es_confidence :: rat
  es_audit_status :: string
  es_auditor_model :: "string option"
  es_audit_rationale :: "string option"
  es_audited_at :: "string option"

text \<open>The store: the five tables the operations below touch, each in insertion order, and
  the directory \<open>parsed_text/\<close> beside the database file, whose file
  \<open>{paper_id}_v{version}.md\<close> is keyed by the pair (paper id, version).\<close>

record db =
  papers :: "paper list"
  screening_decisions :: "screening_row list"
  full_text_assets :: "asset_row list"
  extractions :: "extraction_row list"
  evidence_spans :: "span_row list"
  parsed_text :: "((int \<times> int) \<times> string) list"

datatype value_error =
  Invalid_status string
| Paper_not_found int
| Invalid_transition string string

datatype error =
  ValueError value_error
| IntegrityError
| IndexError
| ValidationError
| CollaboratorError string

text \<open>An operation returns its outcome together with the store it leaves behind: every
  statement of the source commits at once, so what was written before a raise stays.\<close>

type_synonym 'a outcome = "(error + 'a) \<times> db"

text \<open>The rowid SQLite gives an \<open>INTEGER PRIMARY KEY\<close> on insert: one more than the
  largest in use, 1 in an empty table.\<close>

definition next_id :: "int list \<Rightarrow> int" where
  "next_id ids = foldr max ids 0 + 1"

subsection \<open>add_papers\<close>

text \<open>The row the INSERT of \<open>add_papers\<close> writes for a citation.\<close>

definition paper_of_citation :: "string \<Rightarrow> int \<Rightarrow> Citation \<Rightarrow> paper" where
  "paper_of_citation now i cit =
    \<lparr>p_id = i, p_pmid = pmid cit, p_doi = doi cit, p_title = title cit,
     p_abstract = abstract cit,
     p_authors = json_dumps False (JList (map JStr (authors cit))),
     p_journal = journal cit, p_year = year cit, p_source = source_name (source cit),
     p_status = ''INGESTED'', p_created_at = now, p_updated_at = now\<rparr>"

text \<open>The INSERT itself. The column \<open>pmid\<close> is \<open>UNIQUE\<close>: a second row with the same
  non-NULL pmid raises \<open>IntegrityError\<close>; NULLs never collide. The \<open>NOT NULL\<close> columns
  are always given by a \<open>Citation\<close>.\<close>

definition insert_paper :: "string \<Rightarrow> Citation \<Rightarrow> db \<Rightarrow> unit outcome" where
  "insert_paper now cit d =
    (if pmid cit \<noteq> None \<and> pmid cit \<in> set (map p_pmid (papers d))
     then (Inl IntegrityError, d)
     else (Inr (),
           d\<lparr>papers := papers d @ [paper_of_citation now (next_id (map p_id (papers d))) cit]\<rparr>))"

text \<open>The loop of \<open>add_papers\<close>, with its counter \<open>added\<close>.\<close>

fun add_papers_loop :: "string \<Rightarrow> Citation list \<Rightarrow> db \<Rightarrow> int \<Rightarrow> int outcome" where
  "add_papers_loop now [] d added = (Inr added, d)"
| "add_papers_loop now (cit # cits) d added =
    (if truthy (pmid cit) \<and> pmid cit \<in> set (map p_pmid (papers d))
     then add_papers_loop now cits d added
     else
       (case insert_paper now cit d of
          (Inr _, d') \<Rightarrow> add_papers_loop now cits d' (added + 1)
        | (Inl e, d') \<Rightarrow>
            if e = IntegrityError then add_papers_loop now cits d' added else (Inl e, d')))"

definition add_papers :: "string \<Rightarrow> Citation list \<Rightarrow> db \<Rightarrow> int outcome" where
  "add_papers now citations d = add_papers_loop now citations d 0"


subsection \<open>update_status\<close>

definition update_status :: "string \<Rightarrow> int \<Rightarrow> string \<Rightarrow> db \<Rightarrow> unit outcome" where
  "update_status now paper_id new_status d =
    (if new_status \<notin> set STATUSES then (Inl (ValueError (Invalid_status new_status)), d)
     else
       (case find (\<lambda>p. p_id p = paper_id) (papers d) of
          None \<Rightarrow> (Inl (ValueError (Paper_not_found paper_id)), d)
        | Some row \<Rightarrow>
            (let current = p_status row; allowed = allowed_from current in
             if new_status \<notin> set allowed
             then (Inl (ValueError (Invalid_transition current new_status)), d)
             else
               (Inr (),
                d\<lparr>papers :=
                    map (\<lambda>p. if p_id p = paper_id
                              then p\<lparr>p_status := new_status, p_updated_at := now\<rparr>
                              else p)
                        (papers d)\<rparr>))))"

definition get_papers_by_status :: "string \<Rightarrow> db \<Rightarrow> paper list" where
  "get_papers_by_status status d = filter (\<lambda>p. p_status p = status) (papers d)"

subsection \<open>Screening decisions, extractions, evidence spans\<close>

text \<open>The connection runs with \<open>PRAGMA foreign_keys=ON\<close>: an INSERT whose parent row is
  missing, or whose CHECK fails, raises \<open>IntegrityError\<close> and writes nothing.\<close>

definition add_screening_decision ::
  "string \<Rightarrow> int \<Rightarrow> int \<Rightarrow> string \<Rightarrow> string \<Rightarrow> string \<Rightarrow> db \<Rightarrow> int outcome" where
  "add_screening_decision now paper_id pass_number decision rationale model d =
    (if paper_id \<notin> set (map p_id (papers d)) \<or> pass_number \<notin> {1, 2}
        \<or> decision \<notin> set [''include'', ''exclude'', ''uncertain'']
     then (Inl IntegrityError, d)
     else
       (let i = next_id (map sd_id (screening_decisions d)) in
        (Inr i,
         d\<lparr>screening_decisions := screening_decisions d @
            [\<lparr>sd_id = i, sd_paper_id = paper_id, sd_pass_number = pass_number,
              sd_decision = decision, sd_rationale = rationale, sd_model = model,
              sd_decided_at = now\<rparr>]\<rparr>)))"

text \<open>The column \<open>extracted_data\<close> holds \<open>json.dumps\<close> of the payload; the pipeline only
  ever passes the list of span dumps, and the row keeps that list itself.\<close>

definition add_extraction ::
  "string \<Rightarrow> int \<Rightarrow> string \<Rightarrow> EvidenceSpan list \<Rightarrow> string \<Rightarrow> string \<Rightarrow> db \<Rightarrow> int outcome" where
  "add_extraction now paper_id schema_hash extracted_data reasoning_trace model d =
    (if paper_id \<notin> set (map p_id (papers d)) then (Inl IntegrityError, d)
     else
       (let i = next_id (map ex_id (extractions d)) in
        (Inr i,
         d\<lparr>extractions := extractions d @
            [\<lparr>ex_id = i, ex_paper_id = paper_id, ex_schema_hash = schema_hash,
              ex_extracted_data = extracted_data, ex_reasoning_trace = reasoning_trace,
              ex_model = model, ex_extracted_at = now\<rparr>]\<rparr>)))"

text \<open>SQL \<open>MAX\<close> over a column: NULL when there is no row.\<close>

definition sql_max :: "int list \<Rightarrow> int option" where
  "sql_max xs = (case xs of [] \<Rightarrow> None | y # ys \<Rightarrow> Some (foldr max ys y))"

text \<open>The join of \<open>get_stale_extractions\<close>: each result row is a paper together with the
  schema hash of the joined extraction.\<close>

definition get_stale_extractions :: "string \<Rightarrow> db \<Rightarrow> (paper \<times> string) list" where
  "get_stale_extractions current_hash d =
    concat (map (\<lambda>p.
      map (\<lambda>e. (p, ex_schema_hash e))
        (filter (\<lambda>e. ex_paper_id e = p_id p
                    \<and> ex_schema_hash e \<noteq> current_hash
                    \<and> Some (ex_id e)
                        = sql_max (map ex_id (filter (\<lambda>e2. ex_paper_id e2 = p_id p) (extractions d))))
           (extractions d)))
      (papers d))"

definition add_evidence_span ::
  "int \<Rightarrow> string \<Rightarrow> string \<Rightarrow> string \<Rightarrow> rat \<Rightarrow> db \<Rightarrow> int outcome" where
  "add_evidence_span extraction_id fname val snippet conf d =
    (if extraction_id \<notin> set (map ex_id (extractions d)) \<or> \<not> (0 \<le> conf \<and> conf \<le> 1)
     then (Inl IntegrityError, d)
     else
       (let i = next_id (map es_id (evidence_spans d)) in
        (Inr i,
         d\<lparr>evidence_spans := evidence_spans d @
            [\<lparr>es_id = i, es_extraction_id = extraction_id, es_field_name = fname,
              es_value = val, es_source_snippet = snippet, es_confidence = conf,
              es_audit_status = ''pending'', es_auditor_model = None,
              es_audit_rationale = None, es_audited_at = None\<rparr>]\<rparr>)))"


subsection \<open>update_audit\<close>

text \<open>The \<open>UPDATE ... WHERE id = ?\<close> of \<open>update_audit\<close>. The table's CHECK on
  \<open>audit_status\<close> is evaluated for the rows the statement changes, so with no matching
  row nothing is checked and nothing is written.\<close>

definition AUDIT_STATUSES :: "string list" where
  "AUDIT_STATUSES = [''pending'', ''verified'', ''flagged'']"

definition update_audit :: "string \<Rightarrow> int \<Rightarrow> string \<Rightarrow> string \<Rightarrow> string \<Rightarrow> db \<Rightarrow> unit outcome" where
  "update_audit now span_id status model rationale d =
    (if (\<exists>s \<in> set (evidence_spans d). es_id s = span_id) \<and> status \<notin> set AUDIT_STATUSES
     then (Inl IntegrityError, d)
     else
       (Inr (),
        d\<lparr>evidence_spans :=
            map (\<lambda>s. if es_id s = span_id
                      then s\<lparr>es_audit_status := status, es_auditor_model := Some model,
                              es_audit_rationale := Some rationale, es_audited_at := Some now\<rparr>
                      else s)
                (evidence_spans d)\<rparr>))"

section \<open>Citation deduplication (engine/search/dedup.py)\<close>

subsection \<open>Title normalisation\<close>

text \<open>\<open>str.lower()\<close> on the code points below 256: the ASCII capitals and the Latin-1
  capitals \<open>0xC0..0xDE\<close> (without the multiplication sign) move up by 32.\<close>

definition py_lower_char :: "char \<Rightarrow> char" where
  "py_lower_char c =
    (case map_of (zip ''ABCDEFGHIJKLMNOPQRSTUVWXYZ'' ''abcdefghijklmnopqrstuvwxyz'') c of
       Some l \<Rightarrow> l
     | None \<Rightarrow>
         (let n = (of_char c :: nat) in
          if 192 \<le> n \<and> n \<le> 222 \<and> n \<noteq> 215 then char_of (n + 32) else c))"

definition py_lower :: "string \<Rightarrow> string" where
  "py_lower s = map py_lower_char s"

text \<open>\<open>\w\<close> of a Unicode pattern on the code points below 256: alphanumerics and the
  underscore.\<close>

definition is_word_char :: "char \<Rightarrow> bool" where
  "is_word_char c =
    (let n = (of_char c :: nat) in
     (48 \<le> n \<and> n \<le> 57) \<or> (65 \<le> n \<and> n \<le> 90) \<or> n = 95 \<or> (97 \<le> n \<and> n \<le> 122)
     \<or> n = 170 \<or> n = 178 \<or> n = 179 \<or> n = 181 \<or> n = 185 \<or> n = 186
     \<or> (188 \<le> n \<and> n \<le> 190) \<or> (192 \<le> n \<and> n \<le> 214) \<or> (216 \<le> n \<and> n \<le> 246)
     \<or> 248 \<le> n)"

text \<open>\<open>_SPACE_RE.sub(" ", t)\<close>: every maximal run of whitespace becomes one blank.\<close>

function collapse_spaces :: "string \<Rightarrow> string" where
  "collapse_spaces [] = []"
| "collapse_spaces (c # cs) =
    (if py_isspace c then CHR '' '' # collapse_spaces (dropWhile py_isspace cs)
     else c # collapse_spaces cs)"
  by pat_completeness auto
termination
  by (relation "measure length") (auto simp: less_Suc_eq_le length_dropWhile_le)

definition normalize_title :: "string \<Rightarrow> string" where
  "normalize_title t =
    py_strip (collapse_spaces (filter (\<lambda>c. is_word_char c \<or> py_isspace c) (py_lower t)))"

subsection \<open>difflib.SequenceMatcher(None, a, b).ratio()\<close>

text \<open>The standard library's matcher as \<open>title_similarity\<close> uses it: no junk predicate,
  \<open>autojunk\<close> on. \<open>popular\<close> are the elements of \<open>b\<close> that the automatic heuristic
  drops from the index \<open>b2j\<close> when \<open>b\<close> has 200 elements or more.\<close>

definition popular :: "'a list \<Rightarrow> 'a list" where
  "popular b =
    (if 200 \<le> length b
     then filter (\<lambda>x. length b div 100 + 1 < count_list b x) (remdups b)
     else [])"

definition b2j :: "'a list \<Rightarrow> 'a \<Rightarrow> nat list" where
  "b2j b x =
    (if x \<in> set (popular b) then []
     else map fst (filter (\<lambda>jy. snd jy = x) (enumerate 0 b)))"

text \<open>One row of the table of \<open>find_longest_match\<close>: the inner loop over the positions
  \<open>j\<close> of \<open>a[i]\<close> in \<open>b\<close>, with the row before in \<open>j2len\<close>; the state is the new
  row and the best match so far.\<close>

definition flm_cell ::
  "nat \<Rightarrow> (nat \<times> nat) list \<Rightarrow> nat \<Rightarrow> (nat \<times> nat) list \<times> (nat \<times> nat \<times> nat)
    \<Rightarrow> (nat \<times> nat) list \<times> (nat \<times> nat \<times> nat)" where
  "flm_cell i j2len j st =
    (let newj2len = fst st; best = snd st;
         k = (if j = 0 then 0 else (case map_of j2len (j - 1) of None \<Rightarrow> 0 | Some k' \<Rightarrow> k')) + 1
     in ((j, k) # newj2len,
         if snd (snd best) < k then (i + 1 - k, j + 1 - k, k) else best))"

definition flm_row ::
  "'a list \<Rightarrow> 'a list \<Rightarrow> nat \<Rightarrow> nat \<Rightarrow> nat \<Rightarrow> (nat \<times> nat) list \<times> (nat \<times> nat \<times> nat)
    \<Rightarrow> (nat \<times> nat) list \<times> (nat \<times> nat \<times> nat)" where
  "flm_row a b blo bhi i st =
    fold (flm_cell i (fst st))
      (filter (\<lambda>j. blo \<le> j \<and> j < bhi) (b2j b (a ! i)))
      ([], snd st)"

text \<open>The two loops that extend the best match over equal elements (popular ones
  included). The two further loops of the source extend over junk, and there is none.\<close>

function extend_back :: "'a list \<Rightarrow> 'a list \<Rightarrow> nat \<Rightarrow> nat \<Rightarrow> nat \<times> nat \<times> nat \<Rightarrow> nat \<times> nat \<times> nat" where
  "extend_back a b alo blo (besti, bestj, bestsize) =
    (if alo < besti \<and> blo < bestj \<and> a ! (besti - 1) = b ! (bestj - 1)
     then extend_back a b alo blo (besti - 1, bestj - 1, bestsize + 1)
     else (besti, bestj, bestsize))"
  by pat_completeness auto
termination
  by (relation "measure (\<lambda>(a, b, alo, blo, besti, bestj, bestsize). besti)") auto

function extend_forward :: "'a list \<Rightarrow> 'a list \<Rightarrow> nat \<Rightarrow> nat \<Rightarrow> nat \<times> nat \<times> nat \<Rightarrow> nat \<times> nat \<times> nat" where
  "extend_forward a b ahi bhi (besti, bestj, bestsize) =
    (if besti + bestsize < ahi \<and> bestj + bestsize < bhi
        \<and> a ! (besti + bestsize) = b ! (bestj + bestsize)
     then extend_forward a b ahi bhi (besti, bestj, bestsize + 1)
     else (besti, bestj, bestsize))"
  by pat_completeness auto
termination
  by (relation "measure (\<lambda>(a, b, ahi, bhi, besti, bestj, bestsize). ahi - (besti + bestsize))") auto

definition find_longest_match ::
  "'a list \<Rightarrow> 'a list \<Rightarrow> nat \<Rightarrow> nat \<Rightarrow> nat \<Rightarrow> nat \<Rightarrow> nat \<times> nat \<times> nat" where
  "find_longest_match a b alo ahi blo bhi =
    extend_forward a b ahi bhi
      (extend_back a b alo blo
        (snd (fold (flm_row a b blo bhi) [alo..<ahi] ([], (alo, blo, 0)))))"


text \<open>Bounds of the match \<open>find_longest_match\<close> returns, for the termination of the
  recursion over the blocks.\<close>

definition flm_inv :: "nat \<Rightarrow> nat \<Rightarrow> (nat \<times> nat) list \<times> (nat \<times> nat \<times> nat) \<Rightarrow> bool" where
  "flm_inv alo n st =
    ((\<forall>jk \<in> set (fst st). snd jk + alo \<le> n)
     \<and> alo \<le> fst (snd st) \<and> fst (snd st) + snd (snd (snd st)) \<le> n)"

lemma flm_cell_inv:
  assumes "\<forall>jk \<in> set j2len. snd jk + alo \<le> n" "alo \<le> n" "flm_inv alo (Suc n) st"
  shows "flm_inv alo (Suc n) (flm_cell n j2len j st)"
proof -
  let ?k0 = "if j = 0 then 0 else (case map_of j2len (j - 1) of None \<Rightarrow> 0 | Some k' \<Rightarrow> k')"
  have "?k0 + alo \<le> n"
  proof (cases "map_of j2len (j - 1)")
    case None
    with assms(2) show ?thesis by simp
  next
    case (Some k')
    then have "(j - 1, k') \<in> set j2len" by (rule map_of_SomeD)
    with assms(1) have "k' + alo \<le> n" by fastforce
    with Some assms(2) show ?thesis by simp
  qed
  then show ?thesis
    using assms(3) by (auto simp: flm_inv_def flm_cell_def Let_def)
qed

lemma flm_cells_inv:
  assumes "\<forall>jk \<in> set j2len. snd jk + alo \<le> n" "alo \<le> n"
  shows "flm_inv alo (Suc n) st \<Longrightarrow> flm_inv alo (Suc n) (fold (flm_cell n j2len) js st)"
  by (induction js arbitrary: st) (simp_all add: flm_cell_inv [OF assms])

lemma flm_row_inv:
  assumes "flm_inv alo n st" "alo \<le> n"
  shows "flm_inv alo (Suc n) (flm_row a b blo bhi n st)"
proof -
  have "flm_inv alo (Suc n) ([], snd st)"
    using assms(1) by (simp add: flm_inv_def)
  moreover have "\<forall>jk \<in> set (fst st). snd jk + alo \<le> n"
    using assms(1) by (simp add: flm_inv_def)
  ultimately show ?thesis
    unfolding flm_row_def using assms(2) by (intro flm_cells_inv)
qed

lemma flm_rows_inv:
  "alo \<le> n \<Longrightarrow> flm_inv alo n (fold (flm_row a b blo bhi) [alo..<n] ([], (alo, blo, 0)))"
proof (induction n rule: dec_induct)
  case base
  show ?case by (simp add: flm_inv_def)
next
  case (step n)
  then show ?case by (simp add: flm_row_inv)
qed

lemma extend_back_bounds:
  "extend_back a b alo blo t = (i, j, k) \<Longrightarrow> alo \<le> fst t \<Longrightarrow>
    alo \<le> i \<and> i + k = fst t + snd (snd t) \<and> snd (snd t) \<le> k"
proof (induction a b alo blo t rule: extend_back.induct)
  case (1 a b alo blo besti bestj bestsize)
  show ?case
  proof (cases "alo < besti \<and> blo < bestj \<and> a ! (besti - 1) = b ! (bestj - 1)")
    case True
    then have "extend_back a b alo blo (besti, bestj, bestsize)
        = extend_back a b alo blo (besti - 1, bestj - 1, bestsize + 1)"
      by (subst extend_back.simps) (simp del: extend_back.simps)
    with "1.prems"(1) have "extend_back a b alo blo (besti - 1, bestj - 1, bestsize + 1) = (i, j, k)"
      by (simp del: extend_back.simps)
    moreover from True have "alo \<le> fst (besti - 1, bestj - 1, bestsize + 1)" by auto
    ultimately show ?thesis using "1.IH" [OF True] True by auto
  next
    case False
    have "extend_back a b alo blo (besti, bestj, bestsize) = (besti, bestj, bestsize)"
      by (subst extend_back.simps) (simp only: False if_False)
    with "1.prems" show ?thesis by (simp del: extend_back.simps)
  qed
qed

lemma extend_forward_bounds:
  "extend_forward a b ahi bhi t = (i, j, k) \<Longrightarrow> fst t + snd (snd t) \<le> ahi \<Longrightarrow>
    i = fst t \<and> i + k \<le> ahi \<and> snd (snd t) \<le> k"
proof (induction a b ahi bhi t rule: extend_forward.induct)
  case (1 a b ahi bhi besti bestj bestsize)
  show ?case
  proof (cases "besti + bestsize < ahi \<and> bestj + bestsize < bhi
        \<and> a ! (besti + bestsize) = b ! (bestj + bestsize)")
    case True
    then have "extend_forward a b ahi bhi (besti, bestj, bestsize)
        = extend_forward a b ahi bhi (besti, bestj, bestsize + 1)"
      by (subst extend_forward.simps) (simp del: extend_forward.simps)
    with "1.prems"(1) have "extend_forward a b ahi bhi (besti, bestj, bestsize + 1) = (i, j, k)"
      by (simp del: extend_forward.simps)
    moreover from True have "fst (besti, bestj, bestsize + 1) + snd (snd (besti, bestj, bestsize + 1)) \<le> ahi"
      by simp
    ultimately show ?thesis using "1.IH" [OF True] by auto
  next
    case False
    have "extend_forward a b ahi bhi (besti, bestj, bestsize) = (besti, bestj, bestsize)"
      by (subst extend_forward.simps) (simp only: False if_False)
    with "1.prems" show ?thesis by (simp del: extend_forward.simps)
  qed
qed

lemma find_longest_match_bounds:
  assumes "find_longest_match a b alo ahi blo bhi = (i, j, k)" "k \<noteq> 0"
  shows "alo \<le> i \<and> i + k \<le> ahi"
proof (cases "alo \<le> ahi")
  case True
  let ?t = "snd (fold (flm_row a b blo bhi) [alo..<ahi] ([], (alo, blo, 0)))"
  from flm_rows_inv [OF True, of a b blo bhi]
  have t: "alo \<le> fst ?t" "fst ?t + snd (snd ?t) \<le> ahi"
    by (simp_all add: flm_inv_def)
  obtain i1 j1 k1 where e1: "extend_back a b alo blo ?t = (i1, j1, k1)"
    by (cases "extend_back a b alo blo ?t") auto
  from extend_back_bounds [OF e1 t(1)] t(2) have b1: "alo \<le> i1" "i1 + k1 \<le> ahi"
    by auto
  from assms(1) e1 have "extend_forward a b ahi bhi (i1, j1, k1) = (i, j, k)"
    by (simp add: find_longest_match_def)
  from extend_forward_bounds [OF this] b1 show ?thesis by auto
next
  case False
  then have "find_longest_match a b alo ahi blo bhi = (alo, blo, 0)"
    by (simp add: find_longest_match_def)
  with assms show ?thesis by simp
qed

text \<open>\<open>get_matching_blocks\<close> works off a list of pending windows; the function below
  visits the same windows by recursion and adds up the sizes of the blocks, which is the
  \<open>matches\<close> of \<open>ratio\<close> (joining adjacent blocks and the closing dummy block of size 0
  do not change the sum).\<close>

function matching_size :: "'a list \<Rightarrow> 'a list \<Rightarrow> nat \<Rightarrow> nat \<Rightarrow> nat \<Rightarrow> nat \<Rightarrow> nat" where
  "matching_size a b alo ahi blo bhi =
    (case find_longest_match a b alo ahi blo bhi of
       (i, j, k) \<Rightarrow>
         if k = 0 then 0
         else k
           + (if alo < i \<and> blo < j then matching_size a b alo i blo j else 0)
           + (if i + k < ahi \<and> j + k < bhi then matching_size a b (i + k) ahi (j + k) bhi else 0))"
  by pat_completeness auto
termination
proof (relation "measure (\<lambda>(a, b, alo, ahi, blo, bhi). ahi - alo)", goal_cases)
  case 1
  show ?case by simp
next
  case (2 a b alo ahi blo bhi i jk j k)
  then have "find_longest_match a b alo ahi blo bhi = (i, j, k)" by simp
  from find_longest_match_bounds [OF this] 2 show ?case by auto
next
  case (3 a b alo ahi blo bhi i jk j k)
  then have "find_longest_match a b alo ahi blo bhi = (i, j, k)" by simp
  from find_longest_match_bounds [OF this] 3 show ?case by auto
qed

text \<open>\<open>ratio()\<close> is the float \<open>2.0 * matches / length\<close> (1.0 for two empty strings); the
  model keeps the exact quotient. \<open>title_similarity(t1, t2) > 0.9\<close> compares that float
  with the float nearest to 9/10; for strings of fewer than \<open>10^15\<close> characters together
  the two roundings cannot change the outcome of the comparison, which is the one of the
  exact numbers.\<close>

definition title_similarity :: "string \<Rightarrow> string \<Rightarrow> rat" where
  "title_similarity t1 t2 =
    (let matches = matching_size t1 t2 0 (length t1) 0 (length t2);
         len = length t1 + length t2
     in if len \<noteq> 0 then 2 * of_nat matches / of_nat len else 1)"

subsection \<open>Matching, merging and the merge loop\<close>

text \<open>\<open>_find_match\<close>. A dict is a map; \<open>if cit.doi:\<close> is Python truthiness.\<close>

definition find_match ::
  "Citation \<Rightarrow> (string \<rightharpoonup> nat) \<Rightarrow> (string \<rightharpoonup> nat) \<Rightarrow> (string \<times> nat) list \<Rightarrow> nat option" where
  "find_match cit doi_idx pmid_idx title_idx =
    (case (case doi cit of
             None \<Rightarrow> None
           | Some s \<Rightarrow> if s \<noteq> [] then doi_idx (py_lower (py_strip s)) else None) of
       Some idx \<Rightarrow> Some idx
     | None \<Rightarrow>
       (case (case pmid cit of
                None \<Rightarrow> None
              | Some s \<Rightarrow> if s \<noteq> [] then pmid_idx (py_strip s) else None) of
          Some idx \<Rightarrow> Some idx
        | None \<Rightarrow>
            (let norm = normalize_title (title cit) in
             map_option snd
               (find (\<lambda>entry. 9 / 10 < title_similarity norm (fst entry)) title_idx))))"

text \<open>\<open>_merge\<close>: the dump of the primary record with its gaps filled.\<close>

definition merge :: "Citation \<Rightarrow> Citation \<Rightarrow> Citation" where
  "merge primary secondary =
    primary\<lparr>
      doi := (if doi primary = None \<and> doi secondary \<noteq> None then doi secondary else doi primary),
      pmid := (if pmid primary = None \<and> pmid secondary \<noteq> None then pmid secondary
               else pmid primary),
      abstract := (if abstract primary = None \<and> abstract secondary \<noteq> None
                   then abstract secondary else abstract primary),
      journal := (if journal primary = None \<and> journal secondary \<noteq> None
                  then journal secondary else journal primary),
      year := (if year primary = None \<and> year secondary \<noteq> None then year secondary
               else year primary),
      authors := (if authors primary = [] \<and> authors secondary \<noteq> []
                  then authors secondary else authors primary)\<rparr>"

text \<open>The local variables of \<open>deduplicate\<close>.\<close>

record dedup_state =
  doi_index :: "string \<rightharpoonup> nat"
  pmid_index :: "string \<rightharpoonup> nat"
  title_index :: "(string \<times> nat) list"
  unique :: "Citation list"
  duplicate_pairs :: "(string \<times> string) list"

text \<open>Appending a citation to \<open>unique\<close> and indexing it: the body of the first loop, and
  the \<open>else\<close> branch of the second, which is the same code.\<close>

definition index_citation :: "Citation \<Rightarrow> dedup_state \<Rightarrow> dedup_state" where
  "index_citation cit st =
    (let idx = length (unique st) in
     st\<lparr>unique := unique st @ [cit],
        doi_index :=
          (case doi cit of
             None \<Rightarrow> doi_index st
           | Some s \<Rightarrow> if s \<noteq> [] then (doi_index st)(py_lower (py_strip s) \<mapsto> idx)
                       else doi_index st),
        pmid_index :=
          (case pmid cit of
             None \<Rightarrow> pmid_index st
           | Some s \<Rightarrow> if s \<noteq> [] then (pmid_index st)(py_strip s \<mapsto> idx) else pmid_index st),
        title_index := title_index st @ [(normalize_title (title cit), idx)]\<rparr>)"

text \<open>The body of the second loop. \<open>unique[match_idx]\<close> raises \<open>IndexError\<close> outside the
  list.\<close>

definition merge_or_append :: "Citation \<Rightarrow> dedup_state \<Rightarrow> error + dedup_state" where
  "merge_or_append oa_cit st =
    (case find_match oa_cit (doi_index st) (pmid_index st) (title_index st) of
       Some match_idx \<Rightarrow>
         if match_idx < length (unique st) then
           (let unique' = (unique st)[match_idx := merge (unique st ! match_idx) oa_cit] in
            Inr (st\<lparr>unique := unique',
                     duplicate_pairs := duplicate_pairs st
                        @ [(title (unique' ! match_idx), title oa_cit)]\<rparr>))
         else Inl IndexError
     | None \<Rightarrow> Inr (index_citation oa_cit st))"

fun openalex_loop :: "Citation list \<Rightarrow> dedup_state \<Rightarrow> error + dedup_state" where
  "openalex_loop [] st = Inr st"
| "openalex_loop (oa_cit # rest) st =
    (case merge_or_append oa_cit st of
       Inl e \<Rightarrow> Inl e
     | Inr st' \<Rightarrow> openalex_loop rest st')"

record dedup_stats =
  pubmed_total :: nat
  openalex_total :: nat
  duplicates_found :: nat
  unique_total :: nat

record DedupResult =
  unique_citations :: "Citation list"
  result_duplicate_pairs :: "(string \<times> string) list"
  result_stats :: dedup_stats

definition deduplicate :: "Citation list \<Rightarrow> Citation list \<Rightarrow> error + DedupResult" where
  "deduplicate pubmed_citations openalex_citations =
    (let st0 = fold index_citation pubmed_citations
                 \<lparr>doi_index = Map.empty, pmid_index = Map.empty, title_index = [],
                  unique = [], duplicate_pairs = []\<rparr>
     in case openalex_loop openalex_citations st0 of
          Inl e \<Rightarrow> Inl e
        | Inr st \<Rightarrow>
            Inr \<lparr>unique_citations = unique st,
                 result_duplicate_pairs = duplicate_pairs st,
                 result_stats = \<lparr>pubmed_total = length pubmed_citations,
                                 openalex_total = length openalex_citations,
                                 duplicates_found = length (duplicate_pairs st),
                                 unique_total = length (unique st)\<rparr>\<rparr>)"


section \<open>External collaborators\<close>

text \<open>The structured answer of the screening model, as \<open>ScreeningDecision\<close> of
  engine/agents/screener.py validates it: the decision is one of two literals.\<close>

datatype screening_choice = Include | Exclude

definition choice_name :: "screening_choice \<Rightarrow> string" where
  "choice_name c = (case c of Include \<Rightarrow> ''include'' | Exclude \<Rightarrow> ''exclude'')"

record ScreeningDecision =
  sc_decision :: screening_choice
  sc_rationale :: string
  sc_confidence :: rat

text \<open>What the stage runners call outside this repository: the digest, the language
  models, the PDF libraries and the \<open>pdfs/\<close> directory. Each call either returns or
  raises. \<open>screen_paper\<close> stands for the source function of that name (prompt, model
  call, validation of the answer); \<open>extract_pass1_reasoning\<close> and
  \<open>extract_pass2_output\<close> stand for the prompt builder followed by the model call of
  each extraction pass.\<close>

record collaborators =
  sha256_hexdigest :: "string \<Rightarrow> string"
  screen_paper :: "paper \<Rightarrow> ReviewSpec \<Rightarrow> int \<Rightarrow> error + ScreeningDecision"
  compute_pdf_hash :: "string \<Rightarrow> error + string"
  is_scanned_pdf :: "string \<Rightarrow> error + bool"
  parse_with_docling :: "string \<Rightarrow> error + string"
  parse_with_minicpm :: "string \<Rightarrow> error + string"
  pdf_candidates :: "int \<Rightarrow> string list"
  extract_pass1_reasoning :: "string \<Rightarrow> ReviewSpec \<Rightarrow> error + string"
  extract_pass2_output :: "string \<Rightarrow> string \<Rightarrow> ReviewSpec \<Rightarrow> error + EvidenceSpan list"

section \<open>Dual-pass screening (engine/agents/screener.py)\<close>

definition SCREENER_MODEL :: string where
  "SCREENER_MODEL = ''qwen3:8b''"

record screening_stats =
  ss_screened_in :: int
  ss_screened_out :: int
  ss_flagged :: int
  ss_total :: int

text \<open>The body of the \<open>for\<close> loop of \<open>run_screening\<close> for one paper. Nothing in it is
  inside a \<open>try\<close>: whatever a call raises leaves the loop.\<close>

definition screen_one ::
  "collaborators \<Rightarrow> string \<Rightarrow> ReviewSpec \<Rightarrow> paper \<Rightarrow> screening_stats \<Rightarrow> db
    \<Rightarrow> screening_stats outcome" where
  "screen_one env now spec paper stats d =
    (let pid = p_id paper in
     case screen_paper env paper spec 1 of
       Inl e \<Rightarrow> (Inl e, d)
     | Inr d1 \<Rightarrow>
       (case add_screening_decision now pid 1 (choice_name (sc_decision d1)) (sc_rationale d1)
               SCREENER_MODEL d of
          (Inl e, da) \<Rightarrow> (Inl e, da)
        | (Inr _, da) \<Rightarrow>
          (case screen_paper env paper spec 2 of
             Inl e \<Rightarrow> (Inl e, da)
           | Inr d2 \<Rightarrow>
             (case add_screening_decision now pid 2 (choice_name (sc_decision d2))
                     (sc_rationale d2) SCREENER_MODEL da of
                (Inl e, db) \<Rightarrow> (Inl e, db)
              | (Inr _, db) \<Rightarrow>
                if sc_decision d1 = Include \<and> sc_decision d2 = Include then
                  (case update_status now pid ''SCREENED_IN'' db of
                     (Inl e, dc) \<Rightarrow> (Inl e, dc)
                   | (Inr _, dc) \<Rightarrow>
                       (Inr (stats\<lparr>ss_screened_in := ss_screened_in stats + 1\<rparr>), dc))
                else if sc_decision d1 = Exclude \<and> sc_decision d2 = Exclude then
                  (case update_status now pid ''SCREENED_OUT'' db of
                     (Inl e, dc) \<Rightarrow> (Inl e, dc)
                   | (Inr _, dc) \<Rightarrow>
                       (Inr (stats\<lparr>ss_screened_out := ss_screened_out stats + 1\<rparr>), dc))
                else
                  (case update_status now pid ''SCREEN_FLAGGED'' db of
                     (Inl e, dc) \<Rightarrow> (Inl e, dc)
                   | (Inr _, dc) \<Rightarrow>
                       (Inr (stats\<lparr>ss_flagged := ss_flagged stats + 1\<rparr>), dc))))))"

fun run_screening_loop ::
  "collaborators \<Rightarrow> string \<Rightarrow> ReviewSpec \<Rightarrow> paper list \<Rightarrow> screening_stats \<Rightarrow> db
    \<Rightarrow> screening_stats outcome" where
  "run_screening_loop env now spec [] stats d = (Inr stats, d)"
| "run_screening_loop env now spec (paper # rest) stats d =
    (case screen_one env now spec paper stats d of
       (Inl e, d') \<Rightarrow> (Inl e, d')
     | (Inr stats', d') \<Rightarrow> run_screening_loop env now spec rest stats' d')"

definition run_screening :: "collaborators \<Rightarrow> string \<Rightarrow> ReviewSpec \<Rightarrow> db \<Rightarrow> screening_stats outcome" where
  "run_screening env now spec d =
    (let ps = get_papers_by_status ''INGESTED'' d;
         stats = \<lparr>ss_screened_in = 0, ss_screened_out = 0, ss_flagged = 0,
                  ss_total = int (length ps)\<rparr>
     in run_screening_loop env now spec ps stats d)"

subsection \<open>What a statement reads off the store\<close>

text \<open>The (pass number, decision) pairs recorded for a paper, in insertion order; the
  status \<open>update_status\<close> reads for a paper id; and the status the agreement rule of
  \<open>run_screening\<close> selects.\<close>

definition decisions_of :: "int \<Rightarrow> db \<Rightarrow> (int \<times> string) list" where
  "decisions_of pid d =
    map (\<lambda>r. (sd_pass_number r, sd_decision r))
      (filter (\<lambda>r. sd_paper_id r = pid) (screening_decisions d))"

definition status_of :: "int \<Rightarrow> db \<Rightarrow> string option" where
  "status_of pid d = map_option p_status (find (\<lambda>p. p_id p = pid) (papers d))"

definition agreed_status :: "screening_choice \<Rightarrow> screening_choice \<Rightarrow> string" where
  "agreed_status a b =
    (if a = Include \<and> b = Include then ''SCREENED_IN''
     else if a = Exclude \<and> b = Exclude then ''SCREENED_OUT''
     else ''SCREEN_FLAGGED'')"


section \<open>PDF parsing (engine/parsers/pdf_parser.py, engine/parsers/models.py)\<close>

record ParsedDocument =
  pd_paper_id :: int
  pd_source_pdf_path :: string
  pd_pdf_hash :: string
  pd_parsed_markdown :: string
  pd_parser_used :: string
  pd_parsed_at :: string
  pd_version :: int

text \<open>The constructor of the pydantic model \<open>ParsedDocument\<close>: \<open>parser_used\<close> is
  \<open>Literal["docling", "qwen2.5vl"]\<close> and \<open>version\<close> is \<open>Field(ge=1)\<close>; anything else
  raises \<open>ValidationError\<close>.\<close>

definition new_ParsedDocument ::
  "int \<Rightarrow> string \<Rightarrow> string \<Rightarrow> string \<Rightarrow> string \<Rightarrow> string \<Rightarrow> int \<Rightarrow> error + ParsedDocument" where
  "new_ParsedDocument paper_id path h markdown parser_used parsed_at version =
    (if parser_used \<notin> set [''docling'', ''qwen2.5vl''] \<or> version < 1 then Inl ValidationError
     else Inr \<lparr>pd_paper_id = paper_id, pd_source_pdf_path = path, pd_pdf_hash = h,
                pd_parsed_markdown = markdown, pd_parser_used = parser_used,
                pd_parsed_at = parsed_at, pd_version = version\<rparr>)"

definition SCANNED_THRESHOLD :: nat where
  "SCANNED_THRESHOLD = 100"

text \<open>The routing of \<open>parse_pdf\<close> between the two parsers.\<close>

definition route_parse :: "collaborators \<Rightarrow> string \<Rightarrow> error + (string \<times> string)" where
  "route_parse env pdf_path =
    (case is_scanned_pdf env pdf_path of
       Inl e \<Rightarrow> Inl e
     | Inr scanned \<Rightarrow>
         if scanned then
           (case parse_with_minicpm env pdf_path of
              Inl e \<Rightarrow> Inl e
            | Inr markdown \<Rightarrow> Inr (markdown, ''minicpm-v''))
         else
           (case parse_with_docling env pdf_path of
              Inl e \<Rightarrow> Inl e
            | Inr markdown \<Rightarrow>
                if length (py_strip markdown) < SCANNED_THRESHOLD then
                  (case parse_with_minicpm env pdf_path of
                     Inl e \<Rightarrow> Inl e
                   | Inr markdown' \<Rightarrow> Inr (markdown', ''minicpm-v''))
                else Inr (markdown, ''docling'')))"

text \<open>\<open>md_path.write_text\<close> and \<open>md_path.read_text() if md_path.exists() else ""\<close> on
  the directory \<open>parsed_text/\<close>.\<close>

definition write_text :: "int \<times> int \<Rightarrow> string \<Rightarrow> db \<Rightarrow> db" where
  "write_text k text d =
    d\<lparr>parsed_text := (k, text) # filter (\<lambda>(k', t). k' \<noteq> k) (parsed_text d)\<rparr>"

definition read_text_or_empty :: "int \<times> int \<Rightarrow> db \<Rightarrow> string" where
  "read_text_or_empty k d = (case map_of (parsed_text d) k of None \<Rightarrow> [] | Some t \<Rightarrow> t)"

definition parse_pdf :: "collaborators \<Rightarrow> string \<Rightarrow> string \<Rightarrow> int \<Rightarrow> db \<Rightarrow> ParsedDocument outcome" where
  "parse_pdf env now pdf_path paper_id d =
    (case compute_pdf_hash env pdf_path of
       Inl e \<Rightarrow> (Inl e, d)
     | Inr pdf_hash \<Rightarrow>
       (case sql_max (map fa_parsed_text_version
                (filter (\<lambda>a. fa_paper_id a = paper_id \<and> fa_pdf_hash a = pdf_hash)
                   (full_text_assets d))) of
          Some version \<Rightarrow>
            (new_ParsedDocument paper_id pdf_path pdf_hash
               (read_text_or_empty (paper_id, version) d) ''docling'' now version, d)
        | None \<Rightarrow>
          (let last_version = sql_max (map fa_parsed_text_version
                 (filter (\<lambda>a. fa_paper_id a = paper_id) (full_text_assets d)));
               version = (case last_version of None \<Rightarrow> 0
                          | Some v \<Rightarrow> if v = 0 then 0 else v) + 1
           in
           case route_parse env pdf_path of
             Inl e \<Rightarrow> (Inl e, d)
           | Inr (markdown, parser_used) \<Rightarrow>
             (let d1 = write_text (paper_id, version) markdown d in
              if paper_id \<notin> set (map p_id (papers d1)) then (Inl IntegrityError, d1)
              else
                (let d2 = d1\<lparr>full_text_assets := full_text_assets d1 @
                       [\<lparr>fa_id = next_id (map fa_id (full_text_assets d1)),
                         fa_paper_id = paper_id, fa_pdf_path = pdf_path,
                         fa_pdf_hash = pdf_hash,
                         fa_parsed_text_path = (paper_id, version),
                         fa_parsed_text_version = version,
                         fa_parser_used = parser_used, fa_parsed_at = now\<rparr>]\<rparr>
                 in (new_ParsedDocument paper_id pdf_path pdf_hash markdown parser_used
                       now version, d2))))))"

record parse_stats =
  ps_parsed :: int
  ps_skipped_existing :: int
  ps_failed :: int
  ps_docling :: int
  ps_minicpm :: int

text \<open>The body of the loop of \<open>parse_all_pdfs\<close> for one paper; the \<open>try\<close> block covers
  \<open>parse_pdf\<close>, the parser counters and \<open>update_status\<close>.\<close>

definition parse_one :: "collaborators \<Rightarrow> string \<Rightarrow> paper \<Rightarrow> parse_stats \<times> db \<Rightarrow> parse_stats \<times> db" where
  "parse_one env now paper sd =
    (let stats = fst sd; d = snd sd; pid = p_id paper in
     case pdf_candidates env pid of
       [] \<Rightarrow> (stats\<lparr>ps_failed := ps_failed stats + 1\<rparr>, d)
     | pdf_path # _ \<Rightarrow>
       (case parse_pdf env now pdf_path pid d of
          (Inl exc, d') \<Rightarrow> (stats\<lparr>ps_failed := ps_failed stats + 1\<rparr>, d')
        | (Inr result, d') \<Rightarrow>
          (let stats1 = (if pd_parser_used result = ''docling''
                         then stats\<lparr>ps_docling := ps_docling stats + 1\<rparr>
                         else stats\<lparr>ps_minicpm := ps_minicpm stats + 1\<rparr>) in
           case update_status now pid ''PARSED'' d' of
             (Inl exc, d'') \<Rightarrow> (stats1\<lparr>ps_failed := ps_failed stats1 + 1\<rparr>, d'')
           | (Inr _, d'') \<Rightarrow> (stats1\<lparr>ps_parsed := ps_parsed stats1 + 1\<rparr>, d''))))"

definition parse_all_pdfs :: "collaborators \<Rightarrow> string \<Rightarrow> db \<Rightarrow> parse_stats \<times> db" where
  "parse_all_pdfs env now d =
    foldl (\<lambda>sd paper. parse_one env now paper sd)
      (\<lparr>ps_parsed = 0, ps_skipped_existing = 0, ps_failed = 0, ps_docling = 0, ps_minicpm = 0\<rparr>, d)
      (get_papers_by_status ''PDF_ACQUIRED'' d)"

subsection \<open>Version numbers of a paper's assets\<close>

text \<open>The assets of one paper in insertion order and their versions; the version
  \<open>parse_pdf\<close> allocates next; and the well-formedness of the versions: for every paper
  with assets they are 1, 2, ..., n in insertion order and the hashes are pairwise
  distinct. \<open>parse_requests\<close> runs a sequence of \<open>parse_pdf\<close> calls (timestamp, path,
  paper id), each on the store the previous one left, whatever its outcome.\<close>

definition paper_assets :: "int \<Rightarrow> db \<Rightarrow> asset_row list" where
  "paper_assets pid d = filter (\<lambda>a. fa_paper_id a = pid) (full_text_assets d)"

definition paper_versions :: "int \<Rightarrow> db \<Rightarrow> int list" where
  "paper_versions pid d = map fa_parsed_text_version (paper_assets pid d)"

definition versions_ok :: "db \<Rightarrow> bool" where
  "versions_ok d =
    (\<forall>pid \<in> set (map fa_paper_id (full_text_assets d)).
       paper_versions pid d = map int [1..<Suc (length (paper_assets pid d))]
       \<and> distinct (map fa_pdf_hash (paper_assets pid d)))"

fun parse_requests :: "collaborators \<Rightarrow> (string \<times> string \<times> int) list \<Rightarrow> db \<Rightarrow> db" where
  "parse_requests env [] d = d"
| "parse_requests env ((now, pdf_path, paper_id) # reqs) d =
    parse_requests env reqs (snd (parse_pdf env now pdf_path paper_id d))"

definition next_version :: "int \<Rightarrow> db \<Rightarrow> int" where
  "next_version pid d = (case sql_max (paper_versions pid d) of None \<Rightarrow> 1 | Some v \<Rightarrow> v + 1)"


section \<open>Extraction (engine/agents/extractor.py)\<close>

definition EXTRACTOR_MODEL :: string where
  "EXTRACTOR_MODEL = ''deepseek-r1:32b''"

record ExtractionResult =
  er_paper_id :: int
  er_fields :: "EvidenceSpan list"
  er_reasoning_trace :: string
  er_model :: string
  er_extraction_schema_hash :: string
  er_extracted_at :: string

text \<open>\<open>extract_pass2_structured\<close>: the answer is validated as \<open>ExtractionOutput\<close>
  (confidence in [0, 1], tier in 1..3) and stamped with the schema hash of the spec.\<close>

definition extract_pass2_structured ::
  "collaborators \<Rightarrow> string \<Rightarrow> string \<Rightarrow> string \<Rightarrow> ReviewSpec \<Rightarrow> int \<Rightarrow> error + ExtractionResult" where
  "extract_pass2_structured env now paper_text reasoning_trace spec paper_id =
    (let schema_hash = extraction_hash (sha256_hexdigest env) spec in
     case extract_pass2_output env paper_text reasoning_trace spec of
       Inl e \<Rightarrow> Inl e
     | Inr spans \<Rightarrow>
         if list_all (\<lambda>s. 0 \<le> confidence s \<and> confidence s \<le> 1 \<and> 1 \<le> tier s \<and> tier s \<le> 3) spans
         then Inr \<lparr>er_paper_id = paper_id, er_fields = spans,
                    er_reasoning_trace = reasoning_trace, er_model = EXTRACTOR_MODEL,
                    er_extraction_schema_hash = schema_hash, er_extracted_at = now\<rparr>
         else Inl ValidationError)"

text \<open>The loop of \<open>extract_paper\<close> that stores each evidence span.\<close>

fun store_spans :: "int \<Rightarrow> EvidenceSpan list \<Rightarrow> db \<Rightarrow> unit outcome" where
  "store_spans ext_id [] d = (Inr (), d)"
| "store_spans ext_id (sp # spans) d =
    (case add_evidence_span ext_id (field_name sp) (span_value sp) (source_snippet sp)
            (confidence sp) d of
       (Inl e, d') \<Rightarrow> (Inl e, d')
     | (Inr _, d') \<Rightarrow> store_spans ext_id spans d')"

definition extract_paper ::
  "collaborators \<Rightarrow> string \<Rightarrow> int \<Rightarrow> string \<Rightarrow> ReviewSpec \<Rightarrow> db \<Rightarrow> ExtractionResult outcome" where
  "extract_paper env now paper_id paper_text spec d =
    (case extract_pass1_reasoning env paper_text spec of
       Inl e \<Rightarrow> (Inl e, d)
     | Inr reasoning_trace \<Rightarrow>
       (case extract_pass2_structured env now paper_text reasoning_trace spec paper_id of
          Inl e \<Rightarrow> (Inl e, d)
        | Inr result \<Rightarrow>
          (case add_extraction now paper_id (er_extraction_schema_hash result) (er_fields result)
                  reasoning_trace EXTRACTOR_MODEL d of
             (Inl e, d') \<Rightarrow> (Inl e, d')
           | (Inr ext_id, d') \<Rightarrow>
             (case store_spans ext_id (er_fields result) d' of
                (Inl e, d'') \<Rightarrow> (Inl e, d'')
              | (Inr _, d'') \<Rightarrow> (Inr result, d'')))))"

record extraction_stats =
  xs_extracted :: int
  xs_skipped :: int
  xs_failed :: int
  xs_total_spans :: int

text \<open>The file name \<open>{pid}_v{version}.md\<close>, and
  \<open>sorted(parsed_dir.glob(f"{pid}_v*.md"), reverse=True)\<close>: the files of the paper, the
  largest name first.\<close>

definition md_name :: "int \<times> int \<Rightarrow> string" where
  "md_name k = show_int (fst k) @ ''_v'' @ show_int (snd k) @ ''.md''"

definition md_files :: "int \<Rightarrow> db \<Rightarrow> ((int \<times> int) \<times> string) list" where
  "md_files pid d =
    rev (sort_key (\<lambda>f. md_name (fst f)) (filter (\<lambda>f. fst (fst f) = pid) (parsed_text d)))"

text \<open>The body of the loop of \<open>run_extraction\<close> for one paper.\<close>

definition extract_one ::
  "collaborators \<Rightarrow> string \<Rightarrow> ReviewSpec \<Rightarrow> string \<Rightarrow> paper \<Rightarrow> extraction_stats \<times> db
    \<Rightarrow> extraction_stats \<times> db" where
  "extract_one env now spec schema_hash paper sd =
    (let stats = fst sd; d = snd sd; pid = p_id paper in
     if \<exists>e \<in> set (extractions d). ex_paper_id e = pid \<and> ex_schema_hash e = schema_hash
     then (stats\<lparr>xs_skipped := xs_skipped stats + 1\<rparr>, d)
     else
       (case md_files pid d of
          [] \<Rightarrow> (stats\<lparr>xs_failed := xs_failed stats + 1\<rparr>, d)
        | f # _ \<Rightarrow>
          (case extract_paper env now pid (snd f) spec d of
             (Inl exc, d') \<Rightarrow> (stats\<lparr>xs_failed := xs_failed stats + 1\<rparr>, d')
           | (Inr result, d') \<Rightarrow>
             (case update_status now pid ''EXTRACTED'' d' of
                (Inl exc, d'') \<Rightarrow> (stats\<lparr>xs_failed := xs_failed stats + 1\<rparr>, d'')
              | (Inr _, d'') \<Rightarrow>
                  (stats\<lparr>xs_extracted := xs_extracted stats + 1,
                         xs_total_spans := xs_total_spans stats + int (length (er_fields result))\<rparr>,
                   d'')))))"

definition run_extraction :: "collaborators \<Rightarrow> string \<Rightarrow> ReviewSpec \<Rightarrow> db \<Rightarrow> extraction_stats \<times> db" where
  "run_extraction env now spec d =
    (let schema_hash = extraction_hash (sha256_hexdigest env) spec in
     foldl (\<lambda>sd paper. extract_one env now spec schema_hash paper sd)
       (\<lparr>xs_extracted = 0, xs_skipped = 0, xs_failed = 0, xs_total_spans = 0\<rparr>, d)
       (get_papers_by_status ''PARSED'' d))"


section \<open>Properties\<close>

subsection \<open>Status transitions\<close>

lemma allowed_from_statuses: "x \<in> set (allowed_from c) \<Longrightarrow> x \<in> set STATUSES"
  by (auto simp: allowed_from_def ALLOWED_TRANSITIONS_def STATUSES_def split: if_splits)

lemma allowed_from_terminal:
  "allowed_from ''SCREENED_OUT'' = []" "allowed_from ''AUDITED'' = []"
  by (simp_all add: allowed_from_def ALLOWED_TRANSITIONS_def)

lemma find_None_no_id: "find (\<lambda>p. p_id p = i) ps = None \<longleftrightarrow> i \<notin> p_id ` set ps"
  by (auto simp: find_None_iff)

text \<open>
  C1. \<open>update_status\<close> raises when the requested status is not one of the eight
  statuses, when no paper has the given id, and when the requested status is not in the
  allowed set of the paper's current status; every call on a paper in \<open>SCREENED_OUT\<close>
  or \<open>AUDITED\<close> raises. Whenever it raises the store is the one it was given. When it
  succeeds, the store differs from the old one only in the rows with that id, and in
  those only in \<open>status\<close> and \<open>updated_at\<close>.
\<close>

theorem update_status_transition:
  "(new_status \<notin> set STATUSES \<longrightarrow>
      update_status now pid new_status d = (Inl (ValueError (Invalid_status new_status)), d))
   \<and> (pid \<notin> p_id ` set (papers d) \<longrightarrow>
      (\<exists>e. update_status now pid new_status d = (Inl (ValueError e), d)))
   \<and> (\<forall>row. find (\<lambda>p. p_id p = pid) (papers d) = Some row
          \<and> new_status \<notin> set (allowed_from (p_status row)) \<longrightarrow>
      (\<exists>e. update_status now pid new_status d = (Inl (ValueError e), d)))
   \<and> (\<forall>row. find (\<lambda>p. p_id p = pid) (papers d) = Some row
          \<and> p_status row \<in> {''SCREENED_OUT'', ''AUDITED''} \<longrightarrow>
      (\<exists>e. update_status now pid new_status d = (Inl (ValueError e), d)))
   \<and> (\<forall>e d'. update_status now pid new_status d = (Inl e, d') \<longrightarrow> d' = d)
   \<and> (\<forall>d'. update_status now pid new_status d = (Inr (), d') \<longrightarrow>
        (\<exists>row. find (\<lambda>p. p_id p = pid) (papers d) = Some row
            \<and> new_status \<in> set (allowed_from (p_status row)))
        \<and> d' = d\<lparr>papers := papers d'\<rparr>
        \<and> length (papers d') = length (papers d)
        \<and> (\<forall>i < length (papers d).
              papers d' ! i =
                (if p_id (papers d ! i) = pid
                 then (papers d ! i)\<lparr>p_status := new_status, p_updated_at := now\<rparr>
                 else papers d ! i)))"
proof (intro conjI allI impI)
  assume "new_status \<notin> set STATUSES"
  then show "update_status now pid new_status d = (Inl (ValueError (Invalid_status new_status)), d)"
    by (simp add: update_status_def)
next
  assume "pid \<notin> p_id ` set (papers d)"
  then have "find (\<lambda>p. p_id p = pid) (papers d) = None"
    by (simp add: find_None_no_id)
  then show "\<exists>e. update_status now pid new_status d = (Inl (ValueError e), d)"
    by (simp add: update_status_def)
next
  fix row
  assume "find (\<lambda>p. p_id p = pid) (papers d) = Some row
          \<and> new_status \<notin> set (allowed_from (p_status row))"
  then show "\<exists>e. update_status now pid new_status d = (Inl (ValueError e), d)"
    by (simp add: update_status_def Let_def)
next
  fix row
  assume "find (\<lambda>p. p_id p = pid) (papers d) = Some row
          \<and> p_status row \<in> {''SCREENED_OUT'', ''AUDITED''}"
  then have "find (\<lambda>p. p_id p = pid) (papers d) = Some row" "allowed_from (p_status row) = []"
    using allowed_from_terminal by auto
  then show "\<exists>e. update_status now pid new_status d = (Inl (ValueError e), d)"
    by (simp add: update_status_def Let_def)
next
  fix e d'
  assume "update_status now pid new_status d = (Inl e, d')"
  then show "d' = d"
    by (auto simp: update_status_def Let_def split: if_splits option.splits)
next
  fix d'
  assume ok: "update_status now pid new_status d = (Inr (), d')"
  then show "\<exists>row. find (\<lambda>p. p_id p = pid) (papers d) = Some row
            \<and> new_status \<in> set (allowed_from (p_status row))"
    by (auto simp: update_status_def Let_def split: if_splits option.splits)
  from ok have d': "d' = d\<lparr>papers := map (\<lambda>p. if p_id p = pid
                              then p\<lparr>p_status := new_status, p_updated_at := now\<rparr>
                              else p) (papers d)\<rparr>"
    by (auto simp: update_status_def Let_def split: if_splits option.splits)
  then show "d' = d\<lparr>papers := papers d'\<rparr>" by simp
  from d' show "length (papers d') = length (papers d)" by simp
  fix i assume "i < length (papers d)"
  with d' show "papers d' ! i =
                (if p_id (papers d ! i) = pid
                 then (papers d ! i)\<lparr>p_status := new_status, p_updated_at := now\<rparr>
                 else papers d ! i)"
    by simp
qed

definition store_one_ingested :: db where
  "store_one_ingested =
    \<lparr>papers =
       [\<lparr>p_id = 1, p_pmid = Some ''101'', p_doi = None, p_title = ''Paper A'',
         p_abstract = None, p_authors = ''[]'', p_journal = None, p_year = None,
         p_source = ''pubmed'', p_status = ''INGESTED'',
         p_created_at = ''t0'', p_updated_at = ''t0''\<rparr>],
     screening_decisions = [], full_text_assets = [], extractions = [],
     evidence_spans = [], parsed_text = []\<rparr>"

definition store_one_screened_out :: db where
  "store_one_screened_out =
    store_one_ingested\<lparr>papers :=
      map (\<lambda>p. p\<lparr>p_status := ''SCREENED_OUT''\<rparr>) (papers store_one_ingested)\<rparr>"

theorem update_status_transition_witness:
  "update_status ''t1'' 1 ''DONE'' store_one_ingested
      = (Inl (ValueError (Invalid_status ''DONE'')), store_one_ingested)
   \<and> (\<exists>e. update_status ''t1'' 7 ''SCREENED_IN'' store_one_ingested
          = (Inl (ValueError e), store_one_ingested))
   \<and> (\<exists>e. update_status ''t1'' 1 ''PARSED'' store_one_ingested
          = (Inl (ValueError e), store_one_ingested))
   \<and> (\<exists>e. update_status ''t1'' 1 ''SCREENED_IN'' store_one_screened_out
          = (Inl (ValueError e), store_one_screened_out))
   \<and> fst (update_status ''t1'' 1 ''SCREENED_IN'' store_one_ingested) = Inr ()
   \<and> papers (snd (update_status ''t1'' 1 ''SCREENED_IN'' store_one_ingested)) ! 0
        = (papers store_one_ingested ! 0)\<lparr>p_status := ''SCREENED_IN'', p_updated_at := ''t1''\<rparr>"
proof -
  let ?ok = "update_status ''t1'' 1 ''SCREENED_IN'' store_one_ingested"
  have bad: "''DONE'' \<notin> set STATUSES"
    by (simp add: STATUSES_def)
  have missing: "7 \<notin> p_id ` set (papers store_one_ingested)"
    by (simp add: store_one_ingested_def)
  have row: "find (\<lambda>p. p_id p = 1) (papers store_one_ingested)
      = Some (papers store_one_ingested ! 0)"
    by (simp add: store_one_ingested_def)
  have illegal: "''PARSED'' \<notin> set (allowed_from (p_status (papers store_one_ingested ! 0)))"
    by (simp add: store_one_ingested_def allowed_from_def ALLOWED_TRANSITIONS_def)
  have row_out: "find (\<lambda>p. p_id p = 1) (papers store_one_screened_out)
      = Some (papers store_one_screened_out ! 0)"
    by (simp add: store_one_screened_out_def store_one_ingested_def)
  have terminal: "p_status (papers store_one_screened_out ! 0) \<in> {''SCREENED_OUT'', ''AUDITED''}"
    by (simp add: store_one_screened_out_def store_one_ingested_def)
  have okf: "fst ?ok = Inr ()"
    by (simp add: update_status_def store_one_ingested_def STATUSES_def allowed_from_def
        ALLOWED_TRANSITIONS_def)
  then have ok: "?ok = (Inr (), snd ?ok)"
    by (metis prod.collapse)
  have len: "0 < length (papers store_one_ingested)"
    by (simp add: store_one_ingested_def)
  have id1: "p_id (papers store_one_ingested ! 0) = 1"
    by (simp add: store_one_ingested_def)
  note a = update_status_transition [where new_status = "''DONE''" and now = "''t1''" and pid = 1 and d = store_one_ingested]
  note b = update_status_transition [where new_status = "''SCREENED_IN''" and now = "''t1''" and pid = 7 and d = store_one_ingested]
  note c = update_status_transition [where new_status = "''PARSED''" and now = "''t1''" and pid = 1 and d = store_one_ingested]
  note e = update_status_transition [where new_status = "''SCREENED_IN''" and now = "''t1''" and pid = 1 and d = store_one_screened_out]
  note f = update_status_transition [where new_status = "''SCREENED_IN''" and now = "''t1''" and pid = 1 and d = store_one_ingested]
  have 1: "update_status ''t1'' 1 ''DONE'' store_one_ingested
      = (Inl (ValueError (Invalid_status ''DONE'')), store_one_ingested)"
    using a bad by blast
  have 2: "\<exists>e. update_status ''t1'' 7 ''SCREENED_IN'' store_one_ingested
          = (Inl (ValueError e), store_one_ingested)"
    using b missing by blast
  have 3: "\<exists>e. update_status ''t1'' 1 ''PARSED'' store_one_ingested
          = (Inl (ValueError e), store_one_ingested)"
    using c row illegal by blast
  have 4: "\<exists>e. update_status ''t1'' 1 ''SCREENED_IN'' store_one_screened_out
          = (Inl (ValueError e), store_one_screened_out)"
    using e row_out terminal by blast
  have 5: "papers (snd ?ok) ! 0
        = (papers store_one_ingested ! 0)\<lparr>p_status := ''SCREENED_IN'', p_updated_at := ''t1''\<rparr>"
    using f ok len id1 by metis
  from 1 2 3 4 5 okf show ?thesis by blast
qed

subsection \<open>Audit verdict on a span that does not exist\<close>

text \<open>
  C10. For a span id that is not in \<open>evidence_spans\<close>, \<open>update_audit\<close> with a valid
  status raises nothing and returns the store it was given; \<open>update_status\<close> on a paper
  id that is not in \<open>papers\<close> raises.
\<close>

theorem update_audit_unknown_span_noop:
  assumes "span_id \<notin> es_id ` set (evidence_spans d)"
    and "status \<in> set AUDIT_STATUSES"
  shows "update_audit now span_id status model rationale d = (Inr (), d)
    \<and> (pid \<notin> p_id ` set (papers d) \<longrightarrow>
         update_status now pid new_status d \<noteq> (Inr (), snd (update_status now pid new_status d))
         \<and> snd (update_status now pid new_status d) = d)"
proof -
  have "map (\<lambda>s. if es_id s = span_id
                  then s\<lparr>es_audit_status := status, es_auditor_model := Some model,
                          es_audit_rationale := Some rationale, es_audited_at := Some now\<rparr>
                  else s) (evidence_spans d) = evidence_spans d"
    using assms(1) by (intro map_idI) auto
  then have "update_audit now span_id status model rationale d = (Inr (), d)"
    using assms by (auto simp: update_audit_def)
  moreover have "update_status now pid new_status d \<noteq> (Inr (), snd (update_status now pid new_status d))
         \<and> snd (update_status now pid new_status d) = d"
    if "pid \<notin> p_id ` set (papers d)"
  proof -
    from that have "find (\<lambda>p. p_id p = pid) (papers d) = None"
      by (simp add: find_None_no_id)
    then show ?thesis by (simp add: update_status_def)
  qed
  ultimately show ?thesis by blast
qed

definition store_one_span :: db where
  "store_one_span =
    store_one_ingested\<lparr>evidence_spans :=
      [\<lparr>es_id = 1, es_extraction_id = 1, es_field_name = ''n'', es_value = ''12'',
        es_source_snippet = ''n = 12'', es_confidence = 1, es_audit_status = ''pending'',
        es_auditor_model = None, es_audit_rationale = None, es_audited_at = None\<rparr>]\<rparr>"

theorem update_audit_unknown_span_noop_witness:
  "update_audit ''t1'' 5 ''flagged'' ''m'' ''why'' store_one_span = (Inr (), store_one_span)
   \<and> fst (update_status ''t1'' 5 ''SCREENED_IN'' store_one_span)
       = Inl (ValueError (Paper_not_found 5))
   \<and> snd (update_status ''t1'' 5 ''SCREENED_IN'' store_one_span) = store_one_span"
proof -
  have a: "5 \<notin> es_id ` set (evidence_spans store_one_span)"
    by (simp add: store_one_span_def)
  have b: "''flagged'' \<in> set AUDIT_STATUSES"
    by (simp add: AUDIT_STATUSES_def)
  have c: "5 \<notin> p_id ` set (papers store_one_span)"
    by (simp add: store_one_span_def store_one_ingested_def)
  have d: "fst (update_status ''t1'' 5 ''SCREENED_IN'' store_one_span)
       = Inl (ValueError (Paper_not_found 5))"
    by (simp add: update_status_def store_one_span_def store_one_ingested_def STATUSES_def)
  from update_audit_unknown_span_noop [OF a b, where now = "''t1''" and model = "''m''"
      and rationale = "''why''" and pid = 5 and new_status = "''SCREENED_IN''"] c d
  show ?thesis by blast
qed

subsection \<open>Ingestion\<close>

text \<open>Two list functions that describe the loop of \<open>add_papers\<close> from outside: the
  citations it accepts, given the PMIDs stored so far, and the rows it appends for them.\<close>

fun accepted :: "string option list \<Rightarrow> Citation list \<Rightarrow> Citation list" where
  "accepted seen [] = []"
| "accepted seen (c # cs) =
    (if pmid c \<noteq> None \<and> pmid c \<in> set seen then accepted seen cs
     else c # accepted (seen @ [pmid c]) cs)"

fun new_rows :: "string \<Rightarrow> int \<Rightarrow> Citation list \<Rightarrow> paper list" where
  "new_rows now n [] = []"
| "new_rows now n (c # cs) = paper_of_citation now n c # new_rows now (n + 1) cs"

lemma add_papers_loop_step:
  "add_papers_loop now (cit # cits) d added =
    (if pmid cit \<noteq> None \<and> pmid cit \<in> set (map p_pmid (papers d))
     then add_papers_loop now cits d added
     else add_papers_loop now cits
       (d\<lparr>papers := papers d @ [paper_of_citation now (next_id (map p_id (papers d))) cit]\<rparr>)
       (added + 1))"
  by (simp add: insert_paper_def truthy_def)

lemma foldr_max_init: "(0::int) \<le> b \<Longrightarrow> foldr max xs b = max (foldr max xs 0) b"
  by (induction xs) auto

lemma next_id_append: "next_id (ids @ [next_id ids]) = next_id ids + 1"
proof -
  have "0 \<le> foldr max ids 0" by (induction ids) auto
  then show ?thesis
    using foldr_max_init [of "foldr max ids 0 + 1" ids] by (simp add: next_id_def)
qed

lemma add_papers_loop_exact:
  "add_papers_loop now cits d added =
    (Inr (added + int (length (accepted (map p_pmid (papers d)) cits))),
     d\<lparr>papers := papers d
        @ new_rows now (next_id (map p_id (papers d))) (accepted (map p_pmid (papers d)) cits)\<rparr>)"
proof (induction cits arbitrary: d added)
  case Nil
  show ?case by simp
next
  case (Cons cit cits)
  let ?row = "paper_of_citation now (next_id (map p_id (papers d))) cit"
  let ?d' = "d\<lparr>papers := papers d @ [?row]\<rparr>"
  show ?case
  proof (cases "pmid cit \<noteq> None \<and> pmid cit \<in> set (map p_pmid (papers d))")
    case True
    then have "add_papers_loop now (cit # cits) d added = add_papers_loop now cits d added"
      by (simp add: add_papers_loop_step del: add_papers_loop.simps)
    with True Cons.IH [of d added] show ?thesis by simp
  next
    case False
    then have step: "add_papers_loop now (cit # cits) d added
        = add_papers_loop now cits ?d' (added + 1)"
      by (auto simp add: add_papers_loop_step simp del: add_papers_loop.simps)
    have pm: "map p_pmid (papers ?d') = map p_pmid (papers d) @ [pmid cit]"
      by (simp add: paper_of_citation_def)
    have ids: "next_id (map p_id (papers ?d')) = next_id (map p_id (papers d)) + 1"
      using next_id_append [of "map p_id (papers d)"] by (simp add: paper_of_citation_def)
    have acc: "accepted (map p_pmid (papers d)) (cit # cits)
        = cit # accepted (map p_pmid (papers d) @ [pmid cit]) cits"
      using False by auto
    show ?thesis
      unfolding step Cons.IH [of ?d' "added + 1"] pm ids acc by simp
  qed
qed

lemma new_rows_nth:
  "length (new_rows now n cs) = length cs
    \<and> (\<forall>j < length cs. new_rows now n cs ! j = paper_of_citation now (n + int j) (cs ! j))"
proof (induction cs arbitrary: n)
  case Nil
  show ?case by simp
next
  case (Cons c cs)
  show ?case
  proof (intro conjI allI impI)
    show "length (new_rows now n (c # cs)) = length (c # cs)"
      using Cons.IH [of "n + 1"] by simp
    fix j assume "j < length (c # cs)"
    then show "new_rows now n (c # cs) ! j = paper_of_citation now (n + int j) ((c # cs) ! j)"
      using Cons.IH [of "n + 1"] by (cases j) (simp_all add: add.assoc)
  qed
qed

lemma accepted_by_position:
  "accepted seen cits =
    map (\<lambda>k. cits ! k)
      (filter (\<lambda>k. pmid (cits ! k) = None
                  \<or> (pmid (cits ! k) \<notin> set seen \<and> pmid (cits ! k) \<notin> pmid ` set (take k cits)))
         [0..<length cits])"
proof (induction cits arbitrary: seen)
  case Nil
  show ?case by simp
next
  case (Cons c cits)
  let ?P = "\<lambda>s cs k. pmid (cs ! k) = None
      \<or> (pmid (cs ! k) \<notin> set s \<and> pmid (cs ! k) \<notin> pmid ` set (take k cs))"
  have upt: "[0..<length (c # cits)] = 0 # map Suc [0..<length cits]"
    by (simp add: upt_conv_Cons map_Suc_upt del: upt_Suc)
  have tail: "map (\<lambda>k. (c # cits) ! k) (filter (?P seen (c # cits)) (map Suc [0..<length cits]))
      = map (\<lambda>k. cits ! k) (filter (\<lambda>k. ?P seen (c # cits) (Suc k)) [0..<length cits])"
    by (simp add: filter_map comp_def)
  show ?case
  proof (cases "pmid c \<noteq> None \<and> pmid c \<in> set seen")
    case True
    have "?P seen (c # cits) (Suc k) = ?P seen cits k" for k
      using True by auto
    then have f: "filter (\<lambda>k. ?P seen (c # cits) (Suc k)) [0..<length cits]
        = filter (?P seen cits) [0..<length cits]"
      by presburger
    have p0: "\<not> ?P seen (c # cits) 0" using True by simp
    have acc: "accepted seen (c # cits) = accepted seen cits"
      using True by simp
    have "map (\<lambda>k. (c # cits) ! k) (filter (?P seen (c # cits)) [0..<length (c # cits)])
        = map (\<lambda>k. (c # cits) ! k) (filter (?P seen (c # cits)) (map Suc [0..<length cits]))"
      unfolding upt using p0 by (simp del: upt_Suc)
    also have "\<dots> = map (\<lambda>k. cits ! k) (filter (?P seen cits) [0..<length cits])"
      unfolding tail f ..
    also have "\<dots> = accepted seen cits"
      using Cons.IH [of seen] by simp
    finally show ?thesis unfolding acc by simp
  next
    case False
    have "?P seen (c # cits) (Suc k) = ?P (seen @ [pmid c]) cits k" for k
      by auto
    then have f: "filter (\<lambda>k. ?P seen (c # cits) (Suc k)) [0..<length cits]
        = filter (?P (seen @ [pmid c]) cits) [0..<length cits]"
      by presburger
    have p0: "?P seen (c # cits) 0" using False by auto
    have acc: "accepted seen (c # cits) = c # accepted (seen @ [pmid c]) cits"
      using False by auto
    have "map (\<lambda>k. (c # cits) ! k) (filter (?P seen (c # cits)) [0..<length (c # cits)])
        = c # map (\<lambda>k. (c # cits) ! k) (filter (?P seen (c # cits)) (map Suc [0..<length cits]))"
      unfolding upt using p0 by (simp del: upt_Suc)
    also have "\<dots> = c # map (\<lambda>k. cits ! k) (filter (?P (seen @ [pmid c]) cits) [0..<length cits])"
      unfolding tail f ..
    also have "\<dots> = c # accepted (seen @ [pmid c]) cits"
      using Cons.IH [of "seen @ [pmid c]"] by simp
    finally show ?thesis unfolding acc by simp
  qed
qed

lemma accepted_subseq: "subseq (accepted seen cits) cits"
  by (induction cits arbitrary: seen) (auto intro: list_emb_Cons)

lemma accepted_no_pmid:
  "filter (\<lambda>c. pmid c = None) (accepted seen cits) = filter (\<lambda>c. pmid c = None) cits"
  by (induction cits arbitrary: seen) auto

lemma accepted_not_seen:
  "c \<in> set (accepted seen cits) \<Longrightarrow> pmid c \<noteq> None \<Longrightarrow> pmid c \<notin> set seen"
proof (induction cits arbitrary: seen)
  case Nil
  then show ?case by simp
next
  case (Cons a cits)
  show ?case
  proof (cases "pmid a \<noteq> None \<and> pmid a \<in> set seen")
    case True
    with Cons.prems have "c \<in> set (accepted seen cits)" by simp
    from Cons.IH [OF this Cons.prems(2)] show ?thesis .
  next
    case False
    with Cons.prems(1) have "c = a \<or> c \<in> set (accepted (seen @ [pmid a]) cits)" by auto
    then show ?thesis
    proof
      assume "c = a"
      with False Cons.prems(2) show ?thesis by blast
    next
      assume "c \<in> set (accepted (seen @ [pmid a]) cits)"
      from Cons.IH [OF this Cons.prems(2)] show ?thesis by simp
    qed
  qed
qed

lemma distinct_filter_nth:
  assumes "distinct (filter P ys)" "j < k" "k < length ys" "ys ! j = ys ! k" "P (ys ! k)"
  shows False
proof -
  have ys: "ys = take k ys @ ys ! k # drop (Suc k) ys"
    using assms(3) by (rule id_take_nth_drop)
  have "ys ! k \<in> set (take k ys)"
    using assms(2,3,4) by (metis in_set_conv_nth length_take min.absorb2 less_imp_le nth_take)
  then have "ys ! k \<in> set (filter P (take k ys))"
    using assms(5) by simp
  moreover have "distinct (filter P (take k ys) @ ys ! k # filter P (drop (Suc k) ys))"
    using assms(1,5) by (subst (asm) ys) simp
  ultimately show False by simp
qed

lemma accepted_all:
  assumes "distinct (filter (\<lambda>x. x \<noteq> None) (map pmid cits))"
    and "\<forall>c \<in> set cits. pmid c \<notin> set seen"
  shows "accepted seen cits = cits"
proof -
  let ?P = "\<lambda>k. pmid (cits ! k) = None
      \<or> (pmid (cits ! k) \<notin> set seen \<and> pmid (cits ! k) \<notin> pmid ` set (take k cits))"
  have "?P k" if k: "k < length cits" for k
  proof (cases "pmid (cits ! k) = None")
    case True
    then show ?thesis by simp
  next
    case False
    have "pmid (cits ! k) \<notin> pmid ` set (take k cits)"
    proof
      assume "pmid (cits ! k) \<in> pmid ` set (take k cits)"
      then obtain j where j: "j < k" "pmid (cits ! j) = pmid (cits ! k)"
        using k by (auto simp: in_set_conv_nth)
      have "k < length (map pmid cits)" using k by simp
      moreover have "map pmid cits ! j = map pmid cits ! k" using j k by simp
      moreover have "map pmid cits ! k \<noteq> None" using False k by simp
      ultimately show False by (rule distinct_filter_nth [OF assms(1) j(1)])
    qed
    moreover have "pmid (cits ! k) \<notin> set seen"
      using assms(2) k by simp
    ultimately show ?thesis by simp
  qed
  then have "filter ?P [0..<length cits] = [0..<length cits]"
    by (intro filter_True) simp
  then show ?thesis
    unfolding accepted_by_position by (simp add: map_nth)
qed

text \<open>
  C2. \<open>add_papers\<close> never raises. The citations it inserts are exactly those that have
  no PMID, or whose PMID is neither in the store before the call nor carried by an
  earlier citation of the same list; all others are skipped. For the inserted citations,
  in order, it appends one row each, built from the citation with status \<open>INGESTED\<close>
  and the next free ids; the rows already there and the other tables stay as they were,
  and the number returned is the number of rows appended. So every citation without a
  PMID is inserted, no citation whose PMID was already stored is, a list of citations
  with pairwise different PMIDs none of which is stored is inserted whole, a single
  citation with a stored PMID leaves the store unchanged and counts zero, and a single
  citation with no PMID or a PMID not yet stored adds its row and counts one.
\<close>

theorem add_papers_ingests:
  "\<exists>cs new.
     cs = map (\<lambda>k. citations ! k)
            (filter (\<lambda>k. pmid (citations ! k) = None
                        \<or> (pmid (citations ! k) \<notin> set (map p_pmid (papers d))
                           \<and> pmid (citations ! k) \<notin> pmid ` set (take k citations)))
               [0..<length citations])
     \<and> length new = length cs
     \<and> (\<forall>j < length cs.
           new ! j = paper_of_citation now (next_id (map p_id (papers d)) + int j) (cs ! j))
     \<and> add_papers now citations d = (Inr (int (length new)), d\<lparr>papers := papers d @ new\<rparr>)
     \<and> subseq cs citations
     \<and> list_all2 (\<lambda>p c. \<exists>i. p = paper_of_citation now i c) new cs
     \<and> (\<forall>p \<in> set new. p_status p = ''INGESTED'')
     \<and> filter (\<lambda>c. pmid c = None) cs = filter (\<lambda>c. pmid c = None) citations
     \<and> (\<forall>c \<in> set cs. pmid c \<noteq> None \<longrightarrow> pmid c \<notin> set (map p_pmid (papers d)))
     \<and> (distinct (filter (\<lambda>x. x \<noteq> None) (map pmid citations))
          \<and> (\<forall>c \<in> set citations. pmid c \<notin> set (map p_pmid (papers d))) \<longrightarrow> cs = citations)
     \<and> (\<forall>c. pmid c \<noteq> None \<and> pmid c \<in> set (map p_pmid (papers d)) \<longrightarrow>
            add_papers now [c] d = (Inr 0, d))
     \<and> (\<forall>c. pmid c = None \<or> pmid c \<notin> set (map p_pmid (papers d)) \<longrightarrow>
            add_papers now [c] d
              = (Inr 1, d\<lparr>papers := papers d
                   @ [paper_of_citation now (next_id (map p_id (papers d))) c]\<rparr>))"
proof -
  let ?cs = "accepted (map p_pmid (papers d)) citations"
  let ?n = "next_id (map p_id (papers d))"
  let ?new = "new_rows now ?n ?cs"
  have rows: "length ?new = length ?cs"
    "\<forall>j < length ?cs. ?new ! j = paper_of_citation now (?n + int j) (?cs ! j)"
    using new_rows_nth [of now ?n ?cs] by blast+
  have 1: "?cs = map (\<lambda>k. citations ! k)
            (filter (\<lambda>k. pmid (citations ! k) = None
                        \<or> (pmid (citations ! k) \<notin> set (map p_pmid (papers d))
                           \<and> pmid (citations ! k) \<notin> pmid ` set (take k citations)))
               [0..<length citations])"
    by (rule accepted_by_position)
  have 2: "add_papers now citations d = (Inr (int (length ?new)), d\<lparr>papers := papers d @ ?new\<rparr>)"
    by (simp add: add_papers_def add_papers_loop_exact rows(1))
  have 3: "list_all2 (\<lambda>p c. \<exists>i. p = paper_of_citation now i c) ?new ?cs"
    using rows by (auto simp: list_all2_conv_all_nth)
  have 4: "\<forall>p \<in> set ?new. p_status p = ''INGESTED''"
    using rows by (auto simp: in_set_conv_nth paper_of_citation_def)
  have 5: "\<forall>c \<in> set ?cs. pmid c \<noteq> None \<longrightarrow> pmid c \<notin> set (map p_pmid (papers d))"
    using accepted_not_seen by blast
  have 6: "?cs = citations"
    if "distinct (filter (\<lambda>x. x \<noteq> None) (map pmid citations))
          \<and> (\<forall>c \<in> set citations. pmid c \<notin> set (map p_pmid (papers d)))"
    using that accepted_all by blast
  have 7: "add_papers now [c] d = (Inr 0, d)"
    if "pmid c \<noteq> None \<and> pmid c \<in> set (map p_pmid (papers d))" for c
    using that by (simp add: add_papers_def add_papers_loop_exact)
  have 8: "add_papers now [c] d
      = (Inr 1, d\<lparr>papers := papers d @ [paper_of_citation now ?n c]\<rparr>)"
    if "pmid c = None \<or> pmid c \<notin> set (map p_pmid (papers d))" for c
    using that by (auto simp: add_papers_def add_papers_loop_exact)
  show ?thesis
    apply (rule exI [of _ ?cs], rule exI [of _ ?new])
    apply (intro conjI)
    subgoal by (rule 1)
    subgoal by (rule rows(1))
    subgoal by (rule rows(2))
    subgoal by (rule 2)
    subgoal by (rule accepted_subseq)
    subgoal by (rule 3)
    subgoal by (rule 4)
    subgoal by (rule accepted_no_pmid)
    subgoal by (rule 5)
    subgoal using 6 by blast
    subgoal using 7 by blast
    subgoal using 8 by blast
    done
qed

definition citation_known :: Citation where
  "citation_known =
    \<lparr>pmid = Some ''101'', doi = Some ''10.1/a'', title = ''Paper A again'', abstract = None,
     authors = [], journal = None, year = None, source = Openalex, raw_data = []\<rparr>"

definition citation_no_pmid :: Citation where
  "citation_no_pmid =
    \<lparr>pmid = None, doi = None, title = ''Paper B'', abstract = None,
     authors = [''Doe J''], journal = None, year = Some 2021, source = Pubmed, raw_data = []\<rparr>"

definition citation_fresh :: Citation where
  "citation_fresh =
    \<lparr>pmid = Some ''202'', doi = None, title = ''Paper E'', abstract = Some ''New'',
     authors = [], journal = None, year = None, source = Pubmed, raw_data = []\<rparr>"

theorem add_papers_ingests_witness:
  "add_papers ''t1'' [citation_known] store_one_ingested = (Inr 0, store_one_ingested)
   \<and> add_papers ''t1'' [citation_fresh] store_one_ingested
      = (Inr 1, store_one_ingested\<lparr>papers := papers store_one_ingested
           @ [paper_of_citation ''t1'' 2 citation_fresh]\<rparr>)
   \<and> fst (add_papers ''t1''
        [citation_fresh, citation_no_pmid, citation_fresh\<lparr>pmid := Some ''303''\<rparr>, citation_no_pmid]
        store_one_ingested) = Inr 4
   \<and> add_papers ''t1''
        [citation_known, citation_fresh, citation_no_pmid, citation_fresh\<lparr>title := ''Again''\<rparr>]
        store_one_ingested
      = (Inr 2,
         store_one_ingested\<lparr>papers := papers store_one_ingested @
           [paper_of_citation ''t1'' 2 citation_fresh,
            paper_of_citation ''t1'' 3 citation_no_pmid]\<rparr>)"
proof -
  let ?all = "[citation_fresh, citation_no_pmid, citation_fresh\<lparr>pmid := Some ''303''\<rparr>,
      citation_no_pmid]"
  have stored: "map p_pmid (papers store_one_ingested) = [Some ''101'']"
    and nid: "next_id (map p_id (papers store_one_ingested)) = 2"
    by (simp_all add: store_one_ingested_def next_id_def)
  have known: "pmid citation_known \<noteq> None
      \<and> pmid citation_known \<in> set (map p_pmid (papers store_one_ingested))"
    by (simp add: citation_known_def stored)
  have fresh: "pmid citation_fresh = None
      \<or> pmid citation_fresh \<notin> set (map p_pmid (papers store_one_ingested))"
    by (simp add: citation_fresh_def stored)
  have whole: "distinct (filter (\<lambda>x. x \<noteq> None) (map pmid ?all))
      \<and> (\<forall>c \<in> set ?all. pmid c \<notin> set (map p_pmid (papers store_one_ingested)))"
    by (simp add: citation_fresh_def citation_no_pmid_def stored)
  from add_papers_ingests [where citations = "[citation_known]" and d = store_one_ingested
      and now = "''t1''"]
  have "\<forall>c. pmid c \<noteq> None \<and> pmid c \<in> set (map p_pmid (papers store_one_ingested)) \<longrightarrow>
      add_papers ''t1'' [c] store_one_ingested = (Inr 0, store_one_ingested)"
    by (elim exE conjE)
  with known
  have 1: "add_papers ''t1'' [citation_known] store_one_ingested = (Inr 0, store_one_ingested)"
    by blast
  from add_papers_ingests [where citations = "[citation_fresh]" and d = store_one_ingested
      and now = "''t1''"]
  have "\<forall>c. pmid c = None \<or> pmid c \<notin> set (map p_pmid (papers store_one_ingested)) \<longrightarrow>
      add_papers ''t1'' [c] store_one_ingested
        = (Inr 1, store_one_ingested\<lparr>papers := papers store_one_ingested
             @ [paper_of_citation ''t1'' (next_id (map p_id (papers store_one_ingested))) c]\<rparr>)"
    by (elim exE conjE)
  with fresh
  have 2: "add_papers ''t1'' [citation_fresh] store_one_ingested
      = (Inr 1, store_one_ingested\<lparr>papers := papers store_one_ingested
           @ [paper_of_citation ''t1'' 2 citation_fresh]\<rparr>)"
    unfolding nid by blast
  from add_papers_ingests [where citations = ?all and d = store_one_ingested
      and now = "''t1''"]
  obtain cs new where n: "length new = length cs"
    and r: "add_papers ''t1'' ?all store_one_ingested
      = (Inr (int (length new)), store_one_ingested\<lparr>papers := papers store_one_ingested @ new\<rparr>)"
    and w: "distinct (filter (\<lambda>x. x \<noteq> None) (map pmid ?all))
      \<and> (\<forall>c \<in> set ?all. pmid c \<notin> set (map p_pmid (papers store_one_ingested)))
      \<longrightarrow> cs = ?all"
    by (elim exE conjE) (rule that)
  from w whole have "cs = ?all" by (rule mp)
  with n have "length new = 4" by simp
  with r have 3: "fst (add_papers ''t1'' ?all store_one_ingested) = Inr 4"
    by simp
  have 4: "add_papers ''t1''
        [citation_known, citation_fresh, citation_no_pmid, citation_fresh\<lparr>title := ''Again''\<rparr>]
        store_one_ingested
      = (Inr 2,
         store_one_ingested\<lparr>papers := papers store_one_ingested @
           [paper_of_citation ''t1'' 2 citation_fresh,
            paper_of_citation ''t1'' 3 citation_no_pmid]\<rparr>)"
    by (simp add: add_papers_def insert_paper_def truthy_def next_id_def citation_fresh_def
        citation_known_def citation_no_pmid_def store_one_ingested_def paper_of_citation_def)
  from 1 2 3 4 show ?thesis by blast
qed


subsection \<open>Protocol hashes\<close>

text \<open>
  C3. \<open>screening_hash\<close> is a function of the \<open>screening_criteria\<close> section alone and
  \<open>extraction_hash\<close> of the \<open>extraction_schema\<close> section alone: two specifications that
  agree on the section have the same hash whatever their other fields are, replacing the
  screening criteria never changes the extraction hash, and replacing the extraction
  schema never changes the screening hash.
\<close>

theorem hashes_depend_on_own_section:
  "(screening_criteria s1 = screening_criteria s2 \<longrightarrow>
      screening_hash sha256 s1 = screening_hash sha256 s2)
   \<and> (extraction_schema s1 = extraction_schema s2 \<longrightarrow>
      extraction_hash sha256 s1 = extraction_hash sha256 s2)
   \<and> extraction_hash sha256 (s1\<lparr>screening_criteria := c\<rparr>) = extraction_hash sha256 s1
   \<and> screening_hash sha256 (s1\<lparr>extraction_schema := e\<rparr>) = screening_hash sha256 s1"
  by (simp add: screening_hash_def extraction_hash_def)

definition spec_a :: ReviewSpec where
  "spec_a =
    \<lparr>rs_title = ''Autonomy in surgical robotics'', rs_version = ''1.0'',
     rs_authors = [''A. Author''], rs_date = (2025, 1, 15), prospero_id = None,
     pico = \<lparr>population = ''adults'', intervention = ''robot'', comparator = ''manual'',
             outcomes = [''time'']\<rparr>,
     search_strategy = \<lparr>databases = [''pubmed''], query_terms = [''robot''],
             date_range = [2010, 2025]\<rparr>,
     screening_criteria = \<lparr>inclusion = [''original research''], exclusion = [''review'']\<rparr>,
     extraction_schema = \<lparr>schema_fields =
        [\<lparr>ef_name = ''study_design'', ef_description = ''Design'', ef_type = ''enum'',
          ef_tier = 1, ef_enum_values = Some [''RCT'', ''cohort'']\<rparr>]\<rparr>\<rparr>"

definition spec_b :: ReviewSpec where
  "spec_b =
    spec_a\<lparr>rs_title := ''Another title'', rs_version := ''2.0'',
      extraction_schema := \<lparr>schema_fields =
        [\<lparr>ef_name = ''sample_size'', ef_description = ''N'', ef_type = ''int'',
          ef_tier = 1, ef_enum_values = None\<rparr>]\<rparr>\<rparr>"

theorem hashes_depend_on_own_section_witness:
  "\<forall>sha256. screening_hash sha256 spec_a = screening_hash sha256 spec_b
     \<and> extraction_hash sha256 spec_a
         = extraction_hash sha256 (spec_a\<lparr>rs_title := ''Another title''\<rparr>)
     \<and> extraction_hash (\<lambda>blob. blob) spec_b \<noteq> extraction_hash (\<lambda>blob. blob) spec_a"
proof
  fix sha256 :: "string \<Rightarrow> string"
  have a: "screening_criteria spec_a = screening_criteria spec_b"
    by (simp add: spec_b_def)
  have b: "extraction_schema spec_a = extraction_schema (spec_a\<lparr>rs_title := ''Another title''\<rparr>)"
    by simp
  have c: "extraction_hash (\<lambda>blob. blob) spec_b \<noteq> extraction_hash (\<lambda>blob. blob) spec_a"
    by (simp add: extraction_hash_def canonical_hash_def spec_a_def spec_b_def
        dump_ExtractionSchema_def dump_ExtractionField_def json_string_def
        json_escape_char_def show_int_def digit_char_def)
  from hashes_depend_on_own_section [of spec_a spec_b sha256] a
  have "screening_hash sha256 spec_a = screening_hash sha256 spec_b"
    by blast
  moreover from
    hashes_depend_on_own_section [of spec_a "spec_a\<lparr>rs_title := ''Another title''\<rparr>" sha256] b
  have "extraction_hash sha256 spec_a
      = extraction_hash sha256 (spec_a\<lparr>rs_title := ''Another title''\<rparr>)"
    by blast
  ultimately show "screening_hash sha256 spec_a = screening_hash sha256 spec_b
     \<and> extraction_hash sha256 spec_a
         = extraction_hash sha256 (spec_a\<lparr>rs_title := ''Another title''\<rparr>)
     \<and> extraction_hash (\<lambda>blob. blob) spec_b \<noteq> extraction_hash (\<lambda>blob. blob) spec_a"
    using c by blast
qed


subsection \<open>Extraction staleness\<close>

lemma foldr_max_bounds:
  "(y::int) \<le> foldr max ys y \<and> (\<forall>x \<in> set ys. x \<le> foldr max ys y)
    \<and> (foldr max ys y = y \<or> foldr max ys y \<in> set ys)"
  by (induction ys) (auto simp: max_def)

lemma sql_max_Some_iff:
  "sql_max xs = Some m \<longleftrightarrow> m \<in> set xs \<and> (\<forall>x \<in> set xs. x \<le> m)"
proof (cases xs)
  case Nil
  then show ?thesis by (simp add: sql_max_def)
next
  case (Cons y ys)
  from foldr_max_bounds [of y ys] show ?thesis
    unfolding Cons sql_max_def by (auto intro: antisym)
qed

lemma sql_max_None_iff: "sql_max xs = None \<longleftrightarrow> xs = []"
  by (cases xs) (simp_all add: sql_max_def)

lemma next_id_greater: "x \<in> set ids \<Longrightarrow> x < next_id ids"
  using foldr_max_bounds [of 0 ids] by (auto simp: next_id_def)

lemma get_stale_extractions_set:
  "fst ` set (get_stale_extractions h d) =
    {p \<in> set (papers d). \<exists>e \<in> set (extractions d). ex_paper_id e = p_id p
        \<and> (\<forall>e2 \<in> set (extractions d). ex_paper_id e2 = p_id p \<longrightarrow> ex_id e2 \<le> ex_id e)
        \<and> ex_schema_hash e \<noteq> h}"
  unfolding get_stale_extractions_def
  apply (auto simp: sql_max_Some_iff eq_commute [of "Some _"] image_iff)
  subgoal for p e by (rule exI [of _ e]) auto
  done

lemma latest_after_two_extractions:
  assumes p: "p \<in> set (papers d)"
    and d1_def: "d1 = snd (add_extraction t1 (p_id p) h1 x1 r1 m1 d)"
    and d2_def: "d2 = snd (add_extraction t2 (p_id p) h2 x2 r2 m2 d1)"
  shows "p \<in> fst ` set (get_stale_extractions h d2) \<longleftrightarrow> h2 \<noteq> h"
proof -
  let ?i1 = "next_id (map ex_id (extractions d))"
  let ?e1 = "\<lparr>ex_id = ?i1, ex_paper_id = p_id p, ex_schema_hash = h1,
              ex_extracted_data = x1, ex_reasoning_trace = r1,
              ex_model = m1, ex_extracted_at = t1\<rparr>"
  have d1: "papers d1 = papers d" "extractions d1 = extractions d @ [?e1]"
    using p by (simp_all add: d1_def add_extraction_def Let_def)
  let ?i2 = "next_id (map ex_id (extractions d1))"
  let ?e2 = "\<lparr>ex_id = ?i2, ex_paper_id = p_id p, ex_schema_hash = h2,
              ex_extracted_data = x2, ex_reasoning_trace = r2,
              ex_model = m2, ex_extracted_at = t2\<rparr>"
  have d2: "papers d2 = papers d" "extractions d2 = extractions d1 @ [?e2]"
    using p d1(1) by (simp_all add: d2_def add_extraction_def Let_def)
  have lt: "ex_id e < ?i2" if "e \<in> set (extractions d1)" for e
    using that by (intro next_id_greater) simp
  show ?thesis
  proof
    assume "p \<in> fst ` set (get_stale_extractions h d2)"
    then obtain e where e: "e \<in> set (extractions d2)" "ex_paper_id e = p_id p"
        "\<forall>e2 \<in> set (extractions d2). ex_paper_id e2 = p_id p \<longrightarrow> ex_id e2 \<le> ex_id e"
        "ex_schema_hash e \<noteq> h"
      unfolding get_stale_extractions_set by blast
    from e(3) d2(2) have "?i2 \<le> ex_id e" by simp
    with e(1) lt d2(2) have "e = ?e2" by fastforce
    with e(4) show "h2 \<noteq> h" by auto
  next
    assume "h2 \<noteq> h"
    moreover have "\<forall>e \<in> set (extractions d2). ex_paper_id e = p_id p \<longrightarrow> ex_id e \<le> ex_id ?e2"
      using lt d2(2) by fastforce
    moreover have "?e2 \<in> set (extractions d2)" using d2(2) by simp
    ultimately show "p \<in> fst ` set (get_stale_extractions h d2)"
      unfolding get_stale_extractions_set using p d2(1)
      by (intro CollectI conjI bexI [of _ ?e2]) auto
  qed
qed

lemma extract_one_skips:
  assumes "\<exists>e \<in> set (extractions d). ex_paper_id e = p_id q \<and> ex_schema_hash e = sh"
  shows "extract_one env now spec sh q (stats, d) = (stats\<lparr>xs_skipped := xs_skipped stats + 1\<rparr>, d)"
  using assms by (simp add: extract_one_def)


text \<open>
  C4. The papers returned by \<open>get_stale_extractions h\<close> are exactly the papers that have
  an extraction and whose extraction with the largest id has a schema hash other than
  \<open>h\<close>. A paper extracted under \<open>h1\<close> and then under a different \<open>h2\<close> is returned
  for \<open>h1\<close> and not for \<open>h2\<close>. The extraction runner skips a paper that already has an
  extraction under the current schema hash: it counts it as skipped and writes nothing.
\<close>

theorem get_stale_extractions_latest:
  "fst ` set (get_stale_extractions h d) =
      {p \<in> set (papers d). \<exists>e \<in> set (extractions d). ex_paper_id e = p_id p
          \<and> (\<forall>e2 \<in> set (extractions d). ex_paper_id e2 = p_id p \<longrightarrow> ex_id e2 \<le> ex_id e)
          \<and> ex_schema_hash e \<noteq> h}
   \<and> (p \<in> set (papers d) \<and> h1 \<noteq> h2 \<longrightarrow>
        p \<in> fst ` set (get_stale_extractions h1
               (snd (add_extraction t2 (p_id p) h2 x2 r2 m2
                  (snd (add_extraction t1 (p_id p) h1 x1 r1 m1 d)))))
        \<and> p \<notin> fst ` set (get_stale_extractions h2
               (snd (add_extraction t2 (p_id p) h2 x2 r2 m2
                  (snd (add_extraction t1 (p_id p) h1 x1 r1 m1 d))))))
   \<and> ((\<exists>e \<in> set (extractions d). ex_paper_id e = p_id q \<and> ex_schema_hash e = sh) \<longrightarrow>
        extract_one env now spec sh q (stats, d)
          = (stats\<lparr>xs_skipped := xs_skipped stats + 1\<rparr>, d))"
proof (intro conjI impI)
  show "fst ` set (get_stale_extractions h d) =
      {p \<in> set (papers d). \<exists>e \<in> set (extractions d). ex_paper_id e = p_id p
          \<and> (\<forall>e2 \<in> set (extractions d). ex_paper_id e2 = p_id p \<longrightarrow> ex_id e2 \<le> ex_id e)
          \<and> ex_schema_hash e \<noteq> h}"
    by (rule get_stale_extractions_set)
next
  assume a: "p \<in> set (papers d) \<and> h1 \<noteq> h2"
  then show "p \<in> fst ` set (get_stale_extractions h1
               (snd (add_extraction t2 (p_id p) h2 x2 r2 m2
                  (snd (add_extraction t1 (p_id p) h1 x1 r1 m1 d)))))"
    using latest_after_two_extractions [OF _ refl refl, of p d h1 t2 h2 x2 r2 m2 t1 h1 x1 r1 m1]
    by auto
  from a show "p \<notin> fst ` set (get_stale_extractions h2
               (snd (add_extraction t2 (p_id p) h2 x2 r2 m2
                  (snd (add_extraction t1 (p_id p) h1 x1 r1 m1 d)))))"
    using latest_after_two_extractions [OF _ refl refl, of p d h2 t2 h2 x2 r2 m2 t1 h1 x1 r1 m1]
    by simp
next
  assume "\<exists>e \<in> set (extractions d). ex_paper_id e = p_id q \<and> ex_schema_hash e = sh"
  then show "extract_one env now spec sh q (stats, d)
          = (stats\<lparr>xs_skipped := xs_skipped stats + 1\<rparr>, d)"
    by (rule extract_one_skips)
qed

definition store_two_extractions :: db where
  "store_two_extractions =
    snd (add_extraction ''t2'' 1 ''h2'' [] ''trace'' ''m''
      (snd (add_extraction ''t1'' 1 ''h1'' [] ''trace'' ''m'' store_one_ingested)))"

theorem get_stale_extractions_latest_witness:
  "map ex_schema_hash (extractions store_two_extractions) = [''h1'', ''h2'']
   \<and> map fst (get_stale_extractions ''h1'' store_two_extractions) = papers store_one_ingested
   \<and> papers store_one_ingested ! 0 \<notin> fst ` set (get_stale_extractions ''h2'' store_two_extractions)
   \<and> (\<forall>env now spec stats.
        extract_one env now spec ''h2'' (papers store_one_ingested ! 0) (stats, store_two_extractions)
          = (stats\<lparr>xs_skipped := xs_skipped stats + 1\<rparr>, store_two_extractions))"
proof -
  let ?p = "papers store_one_ingested ! 0"
  have p: "?p \<in> set (papers store_one_ingested) \<and> ''h1'' \<noteq> ''h2''"
    by (simp add: store_one_ingested_def)
  have id1: "p_id ?p = 1"
    by (simp add: store_one_ingested_def)
  have ex: "extractions store_two_extractions =
      [\<lparr>ex_id = 1, ex_paper_id = 1, ex_schema_hash = ''h1'', ex_extracted_data = [],
        ex_reasoning_trace = ''trace'', ex_model = ''m'', ex_extracted_at = ''t1''\<rparr>,
       \<lparr>ex_id = 2, ex_paper_id = 1, ex_schema_hash = ''h2'', ex_extracted_data = [],
        ex_reasoning_trace = ''trace'', ex_model = ''m'', ex_extracted_at = ''t2''\<rparr>]"
    by (simp add: store_two_extractions_def add_extraction_def store_one_ingested_def
        next_id_def Let_def)
  have ps: "papers store_two_extractions = papers store_one_ingested"
    by (simp add: store_two_extractions_def add_extraction_def store_one_ingested_def Let_def)
  have has: "\<exists>e \<in> set (extractions store_two_extractions).
      ex_paper_id e = p_id ?p \<and> ex_schema_hash e = ''h2''"
    by (simp add: ex id1)
  note inst = get_stale_extractions_latest [where p = ?p and d = store_one_ingested
      and ?h1.0 = "''h1''" and ?h2.0 = "''h2''" and ?t1.0 = "''t1''" and ?t2.0 = "''t2''"
      and ?x1.0 = "[]" and ?x2.0 = "[]" and ?r1.0 = "''trace''" and ?r2.0 = "''trace''"
      and ?m1.0 = "''m''" and ?m2.0 = "''m''"]
  have notin: "?p \<notin> fst ` set (get_stale_extractions ''h2'' store_two_extractions)"
    using inst p unfolding store_two_extractions_def id1 by blast
  have stale: "map fst (get_stale_extractions ''h1'' store_two_extractions)
      = papers store_one_ingested"
    by (simp add: get_stale_extractions_def ex ps sql_max_def store_one_ingested_def)
  have skip: "extract_one env now spec ''h2'' ?p (stats, store_two_extractions)
      = (stats\<lparr>xs_skipped := xs_skipped stats + 1\<rparr>, store_two_extractions)"
    for env now spec stats
    using get_stale_extractions_latest [where q = ?p and d = store_two_extractions
        and sh = "''h2''" and env = env and now = now and spec = spec and stats = stats] has
    by blast
  from ex have "map ex_schema_hash (extractions store_two_extractions) = [''h1'', ''h2'']"
    by simp
  with stale notin skip show ?thesis by blast
qed

subsection \<open>Parsed-text versions\<close>

lemma sql_max_upto: "sql_max (map int [1..<Suc n]) = (if n = 0 then None else Some (int n))"
proof (cases n)
  case 0
  then show ?thesis by (simp add: sql_max_def)
next
  case (Suc m)
  have "sql_max (map int [1..<Suc n]) = Some (int n)"
    unfolding sql_max_Some_iff using Suc by auto
  with Suc show ?thesis by simp
qed

lemma parse_pdf_existing:
  assumes "compute_pdf_hash env path = Inr h"
    and "\<exists>a \<in> set (full_text_assets d). fa_paper_id a = pid \<and> fa_pdf_hash a = h"
  shows "\<exists>v. sql_max (map fa_parsed_text_version
                (filter (\<lambda>a. fa_paper_id a = pid \<and> fa_pdf_hash a = h) (full_text_assets d))) = Some v
            \<and> parse_pdf env now path pid d
               = (new_ParsedDocument pid path h (read_text_or_empty (pid, v) d) ''docling'' now v, d)"
proof -
  from assms(2) have "filter (\<lambda>a. fa_paper_id a = pid \<and> fa_pdf_hash a = h) (full_text_assets d) \<noteq> []"
    by (auto simp: filter_empty_conv)
  then obtain v where "sql_max (map fa_parsed_text_version
                (filter (\<lambda>a. fa_paper_id a = pid \<and> fa_pdf_hash a = h) (full_text_assets d))) = Some v"
    by (cases "sql_max (map fa_parsed_text_version
                (filter (\<lambda>a. fa_paper_id a = pid \<and> fa_pdf_hash a = h) (full_text_assets d)))")
      (simp_all add: sql_max_None_iff)
  then show ?thesis
    using assms(1) by (simp add: parse_pdf_def)
qed

lemma parse_pdf_new:
  assumes "compute_pdf_hash env path = Inr h"
    and "\<not> (\<exists>a \<in> set (full_text_assets d). fa_paper_id a = pid \<and> fa_pdf_hash a = h)"
    and "route_parse env path = Inr (md, pu)"
    and "pid \<in> set (map p_id (papers d))"
  shows "parse_pdf env now path pid d =
      (new_ParsedDocument pid path h md pu now (next_version pid d),
       (write_text (pid, next_version pid d) md d)\<lparr>full_text_assets := full_text_assets d @
          [\<lparr>fa_id = next_id (map fa_id (full_text_assets d)),
            fa_paper_id = pid, fa_pdf_path = path, fa_pdf_hash = h,
            fa_parsed_text_path = (pid, next_version pid d),
            fa_parsed_text_version = next_version pid d,
            fa_parser_used = pu, fa_parsed_at = now\<rparr>]\<rparr>)"
proof -
  from assms(2) have "filter (\<lambda>a. fa_paper_id a = pid \<and> fa_pdf_hash a = h) (full_text_assets d) = []"
    by (auto simp: filter_empty_conv)
  then have none: "sql_max (map fa_parsed_text_version
                (filter (\<lambda>a. fa_paper_id a = pid \<and> fa_pdf_hash a = h) (full_text_assets d))) = None"
    by (simp add: sql_max_def)
  have v: "(case sql_max (map fa_parsed_text_version
                 (filter (\<lambda>a. fa_paper_id a = pid) (full_text_assets d))) of None \<Rightarrow> 0
                          | Some v \<Rightarrow> if v = 0 then 0 else v) + 1 = next_version pid d"
    by (simp add: next_version_def paper_versions_def paper_assets_def split: option.splits)
  show ?thesis
    using assms(1,3,4) none
    by (simp add: parse_pdf_def Let_def v write_text_def)
qed

lemma parse_pdf_assets_cases:
  "full_text_assets (snd (parse_pdf env now path pid d)) = full_text_assets d
   \<or> (\<exists>h md pu. compute_pdf_hash env path = Inr h
        \<and> \<not> (\<exists>a \<in> set (full_text_assets d). fa_paper_id a = pid \<and> fa_pdf_hash a = h)
        \<and> route_parse env path = Inr (md, pu) \<and> pid \<in> set (map p_id (papers d)))"
proof (cases "compute_pdf_hash env path")
  case (Inl e)
  then show ?thesis by (simp add: parse_pdf_def)
next
  case (Inr h)
  show ?thesis
  proof (cases "\<exists>a \<in> set (full_text_assets d). fa_paper_id a = pid \<and> fa_pdf_hash a = h")
    case True
    from parse_pdf_existing [OF Inr True, where now = now] show ?thesis by auto
  next
    case False
    then have "filter (\<lambda>a. fa_paper_id a = pid \<and> fa_pdf_hash a = h) (full_text_assets d) = []"
      by (auto simp: filter_empty_conv)
    then have none: "sql_max (map fa_parsed_text_version
                (filter (\<lambda>a. fa_paper_id a = pid \<and> fa_pdf_hash a = h) (full_text_assets d))) = None"
      by (simp add: sql_max_def)
    show ?thesis
    proof (cases "route_parse env path")
      case (Inl e)
      with Inr none show ?thesis by (simp add: parse_pdf_def Let_def)
    next
      case r: (Inr mp)
      obtain md pu where mp: "mp = (md, pu)" by (cases mp)
      show ?thesis
      proof (cases "pid \<in> set (map p_id (papers d))")
        case True
        with Inr False r mp show ?thesis by blast
      next
        case nf: False
        with Inr none r mp show ?thesis
          by (simp add: parse_pdf_def Let_def write_text_def)
      qed
    qed
  qed
qed


lemma versions_ok_cong:
  "full_text_assets d' = full_text_assets d \<Longrightarrow> versions_ok d' = versions_ok d"
  by (simp add: versions_ok_def paper_versions_def paper_assets_def)

lemma paper_versions_upto:
  assumes "versions_ok d"
  shows "paper_versions pid d = map int [1..<Suc (length (paper_assets pid d))]
    \<and> distinct (map fa_pdf_hash (paper_assets pid d))"
proof (cases "pid \<in> set (map fa_paper_id (full_text_assets d))")
  case True
  with assms show ?thesis unfolding versions_ok_def by blast
next
  case False
  then have "paper_assets pid d = []"
    by (auto simp: paper_assets_def filter_empty_conv)
  then show ?thesis by (simp add: paper_versions_def)
qed

lemma next_version_upto:
  assumes "versions_ok d"
  shows "next_version pid d = int (length (paper_assets pid d)) + 1"
proof -
  from paper_versions_upto [OF assms, of pid]
  have "sql_max (paper_versions pid d)
      = (if length (paper_assets pid d) = 0 then None else Some (int (length (paper_assets pid d))))"
    by (simp only: sql_max_upto)
  then show ?thesis by (simp add: next_version_def)
qed

lemma versions_ok_append:
  assumes ok: "versions_ok d"
    and new: "\<not> (\<exists>a \<in> set (full_text_assets d). fa_paper_id a = pid \<and> fa_pdf_hash a = h)"
    and d': "full_text_assets d' = full_text_assets d @ [row]"
    and row: "fa_paper_id row = pid" "fa_pdf_hash row = h"
      "fa_parsed_text_version row = next_version pid d"
  shows "versions_ok d'"
  unfolding versions_ok_def
proof
  fix q assume "q \<in> set (map fa_paper_id (full_text_assets d'))"
  show "paper_versions q d' = map int [1..<Suc (length (paper_assets q d'))]
       \<and> distinct (map fa_pdf_hash (paper_assets q d'))"
  proof (cases "q = pid")
    case True
    have pa: "paper_assets pid d' = paper_assets pid d @ [row]"
      using d' row(1) by (simp add: paper_assets_def)
    have "paper_versions pid d' = paper_versions pid d @ [int (length (paper_assets pid d)) + 1]"
      using pa row(3) next_version_upto [OF ok, of pid] by (simp add: paper_versions_def)
    also have "\<dots> = map int [1..<Suc (length (paper_assets pid d))]
        @ [int (length (paper_assets pid d)) + 1]"
      using paper_versions_upto [OF ok, of pid] by simp
    also have "\<dots> = map int [1..<Suc (length (paper_assets pid d'))]"
      by (simp add: pa)
    finally have v: "paper_versions pid d' = map int [1..<Suc (length (paper_assets pid d'))]" .
    have "h \<notin> set (map fa_pdf_hash (paper_assets pid d))"
      using new by (auto simp: paper_assets_def)
    then have "distinct (map fa_pdf_hash (paper_assets pid d'))"
      using paper_versions_upto [OF ok, of pid] pa row(2) by simp
    with v True show ?thesis by simp
  next
    case False
    then have "paper_assets q d' = paper_assets q d"
      using d' row(1) by (simp add: paper_assets_def)
    with paper_versions_upto [OF ok, of q] show ?thesis
      by (simp add: paper_versions_def)
  qed
qed

lemma versions_ok_parse_pdf:
  assumes "versions_ok d"
  shows "versions_ok (snd (parse_pdf env now path pid d))"
  using parse_pdf_assets_cases [of env now path pid d]
proof (elim disjE exE conjE)
  assume "full_text_assets (snd (parse_pdf env now path pid d)) = full_text_assets d"
  from versions_ok_cong [OF this] assms show ?thesis by blast
next
  fix h md pu
  assume new: "compute_pdf_hash env path = Inr h"
    "\<not> (\<exists>a \<in> set (full_text_assets d). fa_paper_id a = pid \<and> fa_pdf_hash a = h)"
    "route_parse env path = Inr (md, pu)" "pid \<in> set (map p_id (papers d))"
  let ?row = "\<lparr>fa_id = next_id (map fa_id (full_text_assets d)),
          fa_paper_id = pid, fa_pdf_path = path, fa_pdf_hash = h,
          fa_parsed_text_path = (pid, next_version pid d),
          fa_parsed_text_version = next_version pid d,
          fa_parser_used = pu, fa_parsed_at = now\<rparr>"
  have "full_text_assets (snd (parse_pdf env now path pid d)) = full_text_assets d @ [?row]"
    unfolding parse_pdf_new [OF new] by simp
  then show ?thesis
    by (rule versions_ok_append [OF assms new(2)]) simp_all
qed

lemma versions_ok_parse_requests:
  "versions_ok d \<Longrightarrow> versions_ok (parse_requests env reqs d)"
proof (induction reqs arbitrary: d)
  case Nil
  then show ?case by simp
next
  case (Cons r reqs)
  obtain now path pid where r: "r = (now, path, pid)" by (cases r)
  from Cons.prems have "versions_ok (snd (parse_pdf env now path pid d))"
    by (rule versions_ok_parse_pdf)
  then show ?case unfolding r by (simp add: Cons.IH)
qed

lemma versions_ok_empty: "full_text_assets d = [] \<Longrightarrow> versions_ok d"
  by (simp add: versions_ok_def)

lemma next_version_greater: "v \<in> set (paper_versions pid d) \<Longrightarrow> v < next_version pid d"
proof -
  assume v: "v \<in> set (paper_versions pid d)"
  then obtain m where m: "sql_max (paper_versions pid d) = Some m"
    by (cases "sql_max (paper_versions pid d)") (auto simp: sql_max_None_iff)
  then have "v \<le> m" using v by (simp add: sql_max_Some_iff)
  with m show ?thesis by (simp add: next_version_def)
qed

lemma existing_version_returned:
  assumes h: "compute_pdf_hash env path = Inr h"
    and a: "a \<in> set (full_text_assets d)" "fa_paper_id a = pid" "fa_pdf_hash a = h"
    and ok: "versions_ok d"
  shows "\<exists>doc. fst (parse_pdf env now path pid d) = Inr doc
    \<and> pd_version doc = fa_parsed_text_version a"
proof -
  let ?ms = "filter (\<lambda>a. fa_paper_id a = pid \<and> fa_pdf_hash a = h) (full_text_assets d)"
  from a have ex: "\<exists>a \<in> set (full_text_assets d). fa_paper_id a = pid \<and> fa_pdf_hash a = h"
    by blast
  from parse_pdf_existing [OF h ex, of now] obtain v where
    v: "sql_max (map fa_parsed_text_version ?ms) = Some v"
    and res: "parse_pdf env now path pid d
      = (new_ParsedDocument pid path h (read_text_or_empty (pid, v) d) ''docling'' now v, d)"
    by blast
  from v obtain a' where a': "a' \<in> set ?ms" "fa_parsed_text_version a' = v"
    unfolding sql_max_Some_iff by auto
  from paper_versions_upto [OF ok, of pid]
  have vs: "paper_versions pid d = map int [1..<Suc (length (paper_assets pid d))]"
    and dist: "distinct (map fa_pdf_hash (paper_assets pid d))"
    by blast+
  have "a \<in> set (paper_assets pid d)" "a' \<in> set (paper_assets pid d)"
    using a a' by (simp_all add: paper_assets_def)
  moreover have "fa_pdf_hash a = fa_pdf_hash a'"
    using a a' by simp
  ultimately have "a = a'"
    using dist by (meson distinct_map inj_on_def)
  have "v \<in> set (paper_versions pid d)"
    using a' by (auto simp: paper_versions_def paper_assets_def)
  then have "1 \<le> v"
    unfolding vs by auto
  then show ?thesis
    using res a'(2) \<open>a = a'\<close> by (simp add: new_ParsedDocument_def)
qed

text \<open>
  C5. With the content hash \<open>h\<close> of the PDF: when the paper already has an asset with
  hash \<open>h\<close>, \<open>parse_pdf\<close> leaves the store as it was and any document it returns
  carries the version of such an asset; in a store whose versions are well formed it does
  return, with that asset's version. When the hash is new for the paper, the parser
  succeeds and the paper exists, exactly one asset row is appended, for that paper and
  hash, with version \<open>max + 1\<close> of the paper's versions (1 when it has none), larger than
  every version the paper had, and a returned document carries that version. Well-formed
  versions (per paper, in insertion order, 1, 2, ..., n with pairwise distinct hashes)
  stay well formed under \<open>parse_pdf\<close>, so they hold after every sequence of parse
  requests that starts without assets.
\<close>

theorem parse_pdf_versioning:
  assumes h: "compute_pdf_hash env path = Inr h"
  shows
    "((\<exists>a \<in> set (full_text_assets d). fa_paper_id a = pid \<and> fa_pdf_hash a = h) \<longrightarrow>
        snd (parse_pdf env now path pid d) = d
        \<and> (\<forall>doc. fst (parse_pdf env now path pid d) = Inr doc \<longrightarrow>
              (\<exists>a \<in> set (full_text_assets d). fa_paper_id a = pid \<and> fa_pdf_hash a = h
                  \<and> pd_version doc = fa_parsed_text_version a))
        \<and> (versions_ok d \<longrightarrow>
              (\<forall>a \<in> set (full_text_assets d). fa_paper_id a = pid \<and> fa_pdf_hash a = h \<longrightarrow>
                 (\<exists>doc. fst (parse_pdf env now path pid d) = Inr doc
                    \<and> pd_version doc = fa_parsed_text_version a))))
     \<and> (\<not> (\<exists>a \<in> set (full_text_assets d). fa_paper_id a = pid \<and> fa_pdf_hash a = h)
          \<and> route_parse env path = Inr (md, pu) \<and> pid \<in> set (map p_id (papers d)) \<longrightarrow>
        (\<exists>row. full_text_assets (snd (parse_pdf env now path pid d)) = full_text_assets d @ [row]
           \<and> fa_paper_id row = pid \<and> fa_pdf_hash row = h
           \<and> fa_parsed_text_version row
               = (case sql_max (paper_versions pid d) of None \<Rightarrow> 1 | Some v \<Rightarrow> v + 1)
           \<and> (\<forall>v \<in> set (paper_versions pid d). v < fa_parsed_text_version row)
           \<and> (\<forall>doc. fst (parse_pdf env now path pid d) = Inr doc \<longrightarrow>
                 pd_version doc = fa_parsed_text_version row)))
     \<and> (versions_ok d \<longrightarrow> versions_ok (snd (parse_pdf env now path pid d)))
     \<and> (full_text_assets d = [] \<longrightarrow> versions_ok (parse_requests env reqs d))"
proof (intro conjI impI allI ballI)
  assume ex: "\<exists>a \<in> set (full_text_assets d). fa_paper_id a = pid \<and> fa_pdf_hash a = h"
  let ?ms = "filter (\<lambda>a. fa_paper_id a = pid \<and> fa_pdf_hash a = h) (full_text_assets d)"
  from parse_pdf_existing [OF h ex, of now] obtain v where
    v: "sql_max (map fa_parsed_text_version ?ms) = Some v"
    and res: "parse_pdf env now path pid d
      = (new_ParsedDocument pid path h (read_text_or_empty (pid, v) d) ''docling'' now v, d)"
    by blast
  from res show "snd (parse_pdf env now path pid d) = d" by simp
  fix doc assume "fst (parse_pdf env now path pid d) = Inr doc"
  with res have "pd_version doc = v"
    by (auto simp: new_ParsedDocument_def split: if_splits)
  moreover from v obtain a where "a \<in> set ?ms" "fa_parsed_text_version a = v"
    unfolding sql_max_Some_iff by auto
  ultimately show "\<exists>a \<in> set (full_text_assets d). fa_paper_id a = pid \<and> fa_pdf_hash a = h
                  \<and> pd_version doc = fa_parsed_text_version a"
    by auto
next
  fix a
  assume "versions_ok d" "a \<in> set (full_text_assets d)"
    "fa_paper_id a = pid \<and> fa_pdf_hash a = h"
  then show "\<exists>doc. fst (parse_pdf env now path pid d) = Inr doc
                    \<and> pd_version doc = fa_parsed_text_version a"
    using existing_version_returned [OF h, of a d pid now] by blast
next
  assume new: "\<not> (\<exists>a \<in> set (full_text_assets d). fa_paper_id a = pid \<and> fa_pdf_hash a = h)
          \<and> route_parse env path = Inr (md, pu) \<and> pid \<in> set (map p_id (papers d))"
  let ?row = "\<lparr>fa_id = next_id (map fa_id (full_text_assets d)),
          fa_paper_id = pid, fa_pdf_path = path, fa_pdf_hash = h,
          fa_parsed_text_path = (pid, next_version pid d),
          fa_parsed_text_version = next_version pid d,
          fa_parser_used = pu, fa_parsed_at = now\<rparr>"
  from new have res: "parse_pdf env now path pid d =
      (new_ParsedDocument pid path h md pu now (next_version pid d),
       (write_text (pid, next_version pid d) md d)\<lparr>full_text_assets := full_text_assets d @ [?row]\<rparr>)"
    using parse_pdf_new [OF h, of d pid md pu now] by blast
  have 1: "full_text_assets (snd (parse_pdf env now path pid d)) = full_text_assets d @ [?row]"
    unfolding res by simp
  have 2: "fa_parsed_text_version ?row
      = (case sql_max (paper_versions pid d) of None \<Rightarrow> 1 | Some v \<Rightarrow> v + 1)"
    by (simp add: next_version_def)
  have 3: "\<forall>v \<in> set (paper_versions pid d). v < fa_parsed_text_version ?row"
    by (simp add: next_version_greater)
  have 4: "\<forall>doc. fst (parse_pdf env now path pid d) = Inr doc \<longrightarrow>
                 pd_version doc = fa_parsed_text_version ?row"
    unfolding res by (auto simp: new_ParsedDocument_def split: if_splits)
  show "\<exists>row. full_text_assets (snd (parse_pdf env now path pid d)) = full_text_assets d @ [row]
           \<and> fa_paper_id row = pid \<and> fa_pdf_hash row = h
           \<and> fa_parsed_text_version row
               = (case sql_max (paper_versions pid d) of None \<Rightarrow> 1 | Some v \<Rightarrow> v + 1)
           \<and> (\<forall>v \<in> set (paper_versions pid d). v < fa_parsed_text_version row)
           \<and> (\<forall>doc. fst (parse_pdf env now path pid d) = Inr doc \<longrightarrow>
                 pd_version doc = fa_parsed_text_version row)"
    using 1 2 3 4 by (intro exI [of _ ?row]) simp
next
  assume "versions_ok d"
  then show "versions_ok (snd (parse_pdf env now path pid d))"
    by (rule versions_ok_parse_pdf)
next
  assume "full_text_assets d = []"
  then show "versions_ok (parse_requests env reqs d)"
    by (intro versions_ok_parse_requests versions_ok_empty)
qed

definition env_digital :: collaborators where
  "env_digital =
    \<lparr>sha256_hexdigest = (\<lambda>blob. blob),
     screen_paper = (\<lambda>p spec n.
        Inr \<lparr>sc_decision = Include, sc_rationale = ''relevant'', sc_confidence = 1\<rparr>),
     compute_pdf_hash = (\<lambda>path. Inr (''sha:'' @ path)),
     is_scanned_pdf = (\<lambda>path. Inr False),
     parse_with_docling = (\<lambda>path.
        Inr ''xxxxxxxxxxxxxxxxxxxxxxxxxxxxxxxxxxxxxxxxxxxxxxxxxxxxxxxxxxxxxxxxxxxxxxxxxxxxxxxxxxxxxxxxxxxxxxxxxxxx''),
     parse_with_minicpm = (\<lambda>path. Inl (CollaboratorError ''ollama unreachable'')),
     pdf_candidates = (\<lambda>pid. [show_int pid @ ''.pdf'']),
     extract_pass1_reasoning = (\<lambda>text spec. Inr ''reasoning''),
     extract_pass2_output = (\<lambda>text trace spec. Inr [])\<rparr>"

definition store_parsed_once :: db where
  "store_parsed_once = snd (parse_pdf env_digital ''t1'' ''a.pdf'' 1 store_one_ingested)"

theorem parse_pdf_versioning_witness:
  "map (\<lambda>a. (fa_paper_id a, fa_pdf_hash a, fa_parsed_text_version a))
       (full_text_assets store_parsed_once) = [(1, ''sha:a.pdf'', 1)]
   \<and> map pd_version [projr (fst (parse_pdf env_digital ''t1'' ''a.pdf'' 1 store_one_ingested))] = [1]
   \<and> parse_pdf env_digital ''t2'' ''a.pdf'' 1 store_parsed_once
       = (Inr \<lparr>pd_paper_id = 1, pd_source_pdf_path = ''a.pdf'', pd_pdf_hash = ''sha:a.pdf'',
                pd_parsed_markdown = ''xxxxxxxxxxxxxxxxxxxxxxxxxxxxxxxxxxxxxxxxxxxxxxxxxxxxxxxxxxxxxxxxxxxxxxxxxxxxxxxxxxxxxxxxxxxxxxxxxxxx'',
                pd_parser_used = ''docling'', pd_parsed_at = ''t2'', pd_version = 1\<rparr>,
          store_parsed_once)
   \<and> map (\<lambda>a. (fa_pdf_hash a, fa_parsed_text_version a))
       (full_text_assets (snd (parse_pdf env_digital ''t3'' ''b.pdf'' 1 store_parsed_once)))
       = [(''sha:a.pdf'', 1), (''sha:b.pdf'', 2)]
   \<and> versions_ok (parse_requests env_digital
        [(''t1'', ''a.pdf'', 1), (''t3'', ''b.pdf'', 1), (''t4'', ''a.pdf'', 1)] store_one_ingested)"
proof -
  have ha: "compute_pdf_hash env_digital ''a.pdf'' = Inr ''sha:a.pdf''"
    and hb: "compute_pdf_hash env_digital ''b.pdf'' = Inr ''sha:b.pdf''"
    by (simp_all add: env_digital_def)
  have route: "route_parse env_digital path = Inr (''xxxxxxxxxxxxxxxxxxxxxxxxxxxxxxxxxxxxxxxxxxxxxxxxxxxxxxxxxxxxxxxxxxxxxxxxxxxxxxxxxxxxxxxxxxxxxxxxxxxx'', ''docling'')" for path
    by (simp add: route_parse_def env_digital_def py_strip_def py_isspace_def
        SCANNED_THRESHOLD_def)
  have empty: "full_text_assets store_one_ingested = []"
    and paper: "1 \<in> set (map p_id (papers store_one_ingested))"
    by (simp_all add: store_one_ingested_def)
  have none: "\<not> (\<exists>a \<in> set (full_text_assets store_one_ingested).
      fa_paper_id a = 1 \<and> fa_pdf_hash a = ''sha:a.pdf'')"
    by (simp add: empty)
  note first = parse_pdf_versioning [OF ha, where d = store_one_ingested and pid = 1
      and now = "''t1''" and md = "''xxxxxxxxxxxxxxxxxxxxxxxxxxxxxxxxxxxxxxxxxxxxxxxxxxxxxxxxxxxxxxxxxxxxxxxxxxxxxxxxxxxxxxxxxxxxxxxxxxxx''" and pu = "''docling''"
      and reqs = "[(''t1'', ''a.pdf'', 1), (''t3'', ''b.pdf'', 1), (''t4'', ''a.pdf'', 1)]"]
  from first none route paper obtain row where
    row: "full_text_assets store_parsed_once = full_text_assets store_one_ingested @ [row]"
      "fa_paper_id row = 1" "fa_pdf_hash row = ''sha:a.pdf''"
      "fa_parsed_text_version row
         = (case sql_max (paper_versions 1 store_one_ingested) of None \<Rightarrow> 1 | Some v \<Rightarrow> v + 1)"
    unfolding store_parsed_once_def by blast
  have pv: "paper_versions 1 store_one_ingested = []"
    by (simp add: paper_versions_def paper_assets_def empty)
  have 1: "map (\<lambda>a. (fa_paper_id a, fa_pdf_hash a, fa_parsed_text_version a))
       (full_text_assets store_parsed_once) = [(1, ''sha:a.pdf'', 1)]"
    using row by (simp add: empty pv sql_max_def)
  have eval1: "parse_pdf env_digital ''t1'' ''a.pdf'' 1 store_one_ingested =
      (Inr \<lparr>pd_paper_id = 1, pd_source_pdf_path = ''a.pdf'', pd_pdf_hash = ''sha:a.pdf'',
                pd_parsed_markdown = ''xxxxxxxxxxxxxxxxxxxxxxxxxxxxxxxxxxxxxxxxxxxxxxxxxxxxxxxxxxxxxxxxxxxxxxxxxxxxxxxxxxxxxxxxxxxxxxxxxxxx'',
                pd_parser_used = ''docling'', pd_parsed_at = ''t1'', pd_version = 1\<rparr>,
       store_one_ingested\<lparr>
         full_text_assets :=
           [\<lparr>fa_id = 1, fa_paper_id = 1, fa_pdf_path = ''a.pdf'', fa_pdf_hash = ''sha:a.pdf'',
             fa_parsed_text_path = (1, 1), fa_parsed_text_version = 1,
             fa_parser_used = ''docling'', fa_parsed_at = ''t1''\<rparr>],
         parsed_text := [((1, 1), ''xxxxxxxxxxxxxxxxxxxxxxxxxxxxxxxxxxxxxxxxxxxxxxxxxxxxxxxxxxxxxxxxxxxxxxxxxxxxxxxxxxxxxxxxxxxxxxxxxxxx'')]\<rparr>)"
    by (simp add: parse_pdf_def ha route empty sql_max_def Let_def write_text_def
        new_ParsedDocument_def next_id_def store_one_ingested_def)
  have 2: "map pd_version [projr (fst (parse_pdf env_digital ''t1'' ''a.pdf'' 1 store_one_ingested))] = [1]"
    by (simp add: eval1)
  have once: "store_parsed_once = store_one_ingested\<lparr>
         full_text_assets :=
           [\<lparr>fa_id = 1, fa_paper_id = 1, fa_pdf_path = ''a.pdf'', fa_pdf_hash = ''sha:a.pdf'',
             fa_parsed_text_path = (1, 1), fa_parsed_text_version = 1,
             fa_parser_used = ''docling'', fa_parsed_at = ''t1''\<rparr>],
         parsed_text := [((1, 1), ''xxxxxxxxxxxxxxxxxxxxxxxxxxxxxxxxxxxxxxxxxxxxxxxxxxxxxxxxxxxxxxxxxxxxxxxxxxxxxxxxxxxxxxxxxxxxxxxxxxxx'')]\<rparr>"
    by (simp add: store_parsed_once_def eval1)
  have known: "\<exists>a \<in> set (full_text_assets store_parsed_once).
      fa_paper_id a = 1 \<and> fa_pdf_hash a = ''sha:a.pdf''"
    by (simp add: once)
  note again = parse_pdf_versioning [OF ha, where d = store_parsed_once and pid = 1
      and now = "''t2''"]
  from again known have same: "snd (parse_pdf env_digital ''t2'' ''a.pdf'' 1 store_parsed_once)
      = store_parsed_once"
    by blast
  have "fst (parse_pdf env_digital ''t2'' ''a.pdf'' 1 store_parsed_once)
      = Inr \<lparr>pd_paper_id = 1, pd_source_pdf_path = ''a.pdf'', pd_pdf_hash = ''sha:a.pdf'',
                pd_parsed_markdown = ''xxxxxxxxxxxxxxxxxxxxxxxxxxxxxxxxxxxxxxxxxxxxxxxxxxxxxxxxxxxxxxxxxxxxxxxxxxxxxxxxxxxxxxxxxxxxxxxxxxxx'',
                pd_parser_used = ''docling'', pd_parsed_at = ''t2'', pd_version = 1\<rparr>"
    by (simp add: parse_pdf_def ha once sql_max_def new_ParsedDocument_def
        read_text_or_empty_def)
  with same have 3: "parse_pdf env_digital ''t2'' ''a.pdf'' 1 store_parsed_once
       = (Inr \<lparr>pd_paper_id = 1, pd_source_pdf_path = ''a.pdf'', pd_pdf_hash = ''sha:a.pdf'',
                pd_parsed_markdown = ''xxxxxxxxxxxxxxxxxxxxxxxxxxxxxxxxxxxxxxxxxxxxxxxxxxxxxxxxxxxxxxxxxxxxxxxxxxxxxxxxxxxxxxxxxxxxxxxxxxxx'',
                pd_parser_used = ''docling'', pd_parsed_at = ''t2'', pd_version = 1\<rparr>,
          store_parsed_once)"
    by (metis prod.collapse)
  have 4: "map (\<lambda>a. (fa_pdf_hash a, fa_parsed_text_version a))
       (full_text_assets (snd (parse_pdf env_digital ''t3'' ''b.pdf'' 1 store_parsed_once)))
       = [(''sha:a.pdf'', 1), (''sha:b.pdf'', 2)]"
    by (simp add: parse_pdf_def hb route once sql_max_def Let_def write_text_def
        new_ParsedDocument_def next_id_def store_one_ingested_def)
  from first empty have 5: "versions_ok (parse_requests env_digital
        [(''t1'', ''a.pdf'', 1), (''t3'', ''b.pdf'', 1), (''t4'', ''a.pdf'', 1)] store_one_ingested)"
    by blast
  from 1 2 3 4 5 show ?thesis by blast
qed

subsection \<open>Dual-pass screening\<close>

lemma status_of_update_status:
  assumes "status_of pid d = Some cur" "st \<in> set (allowed_from cur)"
  shows "\<exists>d'. update_status now pid st d = (Inr (), d')
    \<and> screening_decisions d' = screening_decisions d
    \<and> (\<forall>q. status_of q d' = (if q = pid then Some st else status_of q d))"
proof -
  from assms(1) obtain row where row: "find (\<lambda>p. p_id p = pid) (papers d) = Some row"
      "p_status row = cur"
    by (auto simp: status_of_def)
  let ?f = "\<lambda>p. if p_id p = pid then p\<lparr>p_status := st, p_updated_at := now\<rparr> else p"
  let ?d' = "d\<lparr>papers := map ?f (papers d)\<rparr>"
  have st: "st \<in> set STATUSES"
    using assms(2) by (auto simp: allowed_from_def ALLOWED_TRANSITIONS_def STATUSES_def split: if_splits)
  have res: "update_status now pid st d = (Inr (), ?d')"
    using row assms(2) st by (simp add: update_status_def Let_def)
  have find_map: "find (\<lambda>p. p_id p = q) (map ?f ps)
      = map_option ?f (find (\<lambda>p. p_id p = q) ps)" for q ps
    by (induction ps) auto
  have "status_of q ?d' = (if q = pid then Some st else status_of q d)" for q
  proof (cases "find (\<lambda>p. p_id p = q) (papers d)")
    case None
    with row show ?thesis by (auto simp: status_of_def find_map)
  next
    case (Some r)
    then have "p_id r = q" by (auto simp: find_Some_iff)
    with Some show ?thesis by (auto simp: status_of_def find_map)
  qed
  with res show ?thesis by (intro exI [of _ ?d']) simp
qed

lemma add_screening_decision_ok:
  assumes "status_of pid d = Some cur" "n \<in> {1, 2}"
  shows "\<exists>i. add_screening_decision now pid n (choice_name c) rat m d =
      (Inr i, d\<lparr>screening_decisions := screening_decisions d @
            [\<lparr>sd_id = i, sd_paper_id = pid, sd_pass_number = n,
              sd_decision = choice_name c, sd_rationale = rat, sd_model = m,
              sd_decided_at = now\<rparr>]\<rparr>)"
proof -
  from assms(1) obtain row where "find (\<lambda>p. p_id p = pid) (papers d) = Some row"
    by (auto simp: status_of_def)
  then have "pid \<in> set (map p_id (papers d))"
    using find_None_no_id [of pid "papers d"] by auto
  moreover have "choice_name c \<in> set [''include'', ''exclude'', ''uncertain'']"
    by (cases c) (simp_all add: choice_name_def)
  ultimately show ?thesis
    using assms(2) by (simp add: add_screening_decision_def Let_def)
qed

lemma decisions_of_append:
  "screening_decisions d' = screening_decisions d @ rs \<Longrightarrow>
    decisions_of q d' = decisions_of q d
      @ map (\<lambda>r. (sd_pass_number r, sd_decision r)) (filter (\<lambda>r. sd_paper_id r = q) rs)"
  by (simp add: decisions_of_def)

lemma status_of_papers_cong: "papers d' = papers d \<Longrightarrow> status_of q d' = status_of q d"
  by (simp add: status_of_def)

lemma screen_one_ok:
  assumes st: "status_of (p_id paper) d = Some ''INGESTED''"
    and a: "screen_paper env paper spec 1 = Inr a"
    and b: "screen_paper env paper spec 2 = Inr b"
  shows "\<exists>stats' d' rs. screen_one env now spec paper stats d = (Inr stats', d')
    \<and> screening_decisions d' = screening_decisions d @ rs
    \<and> map (\<lambda>r. (sd_paper_id r, sd_pass_number r, sd_decision r)) rs
        = [(p_id paper, 1, choice_name (sc_decision a)), (p_id paper, 2, choice_name (sc_decision b))]
    \<and> (\<forall>q. status_of q d' = (if q = p_id paper
          then Some (agreed_status (sc_decision a) (sc_decision b)) else status_of q d))"
proof -
  let ?pid = "p_id paper"
  from add_screening_decision_ok [OF st, of 1 now "sc_decision a" "sc_rationale a" SCREENER_MODEL]
  obtain i1 where r1: "add_screening_decision now ?pid 1 (choice_name (sc_decision a))
        (sc_rationale a) SCREENER_MODEL d =
      (Inr i1, d\<lparr>screening_decisions := screening_decisions d @
            [\<lparr>sd_id = i1, sd_paper_id = ?pid, sd_pass_number = 1,
              sd_decision = choice_name (sc_decision a), sd_rationale = sc_rationale a,
              sd_model = SCREENER_MODEL, sd_decided_at = now\<rparr>]\<rparr>)" (is "_ = (_, ?da)")
    by auto
  have sta: "status_of ?pid ?da = Some ''INGESTED''"
    using st by (simp add: status_of_def)
  from add_screening_decision_ok [OF sta, of 2 now "sc_decision b" "sc_rationale b" SCREENER_MODEL]
  obtain i2 where r2: "add_screening_decision now ?pid 2 (choice_name (sc_decision b))
        (sc_rationale b) SCREENER_MODEL ?da =
      (Inr i2, ?da\<lparr>screening_decisions := screening_decisions ?da @
            [\<lparr>sd_id = i2, sd_paper_id = ?pid, sd_pass_number = 2,
              sd_decision = choice_name (sc_decision b), sd_rationale = sc_rationale b,
              sd_model = SCREENER_MODEL, sd_decided_at = now\<rparr>]\<rparr>)" (is "_ = (_, ?db)")
    by auto
  have stb: "status_of ?pid ?db = Some ''INGESTED''"
    using st by (simp add: status_of_def)
  let ?st = "agreed_status (sc_decision a) (sc_decision b)"
  have "?st \<in> set (allowed_from ''INGESTED'')"
    by (simp add: agreed_status_def allowed_from_def ALLOWED_TRANSITIONS_def)
  from status_of_update_status [OF stb this, of now] obtain dc where
    dc: "update_status now ?pid ?st ?db = (Inr (), dc)"
      "screening_decisions dc = screening_decisions ?db"
      "\<forall>q. status_of q dc = (if q = ?pid then Some ?st else status_of q ?db)"
    by blast
  have same: "status_of q ?db = status_of q d" for q
    by (simp add: status_of_def)
  have "\<exists>stats'. screen_one env now spec paper stats d = (Inr stats', dc)"
    using a b r1 r2 dc(1)
    by (cases "sc_decision a"; cases "sc_decision b")
      (simp_all add: screen_one_def Let_def agreed_status_def)
  then obtain stats' where "screen_one env now spec paper stats d = (Inr stats', dc)" ..
  moreover have "screening_decisions dc = screening_decisions d @
      [\<lparr>sd_id = i1, sd_paper_id = ?pid, sd_pass_number = 1,
              sd_decision = choice_name (sc_decision a), sd_rationale = sc_rationale a,
              sd_model = SCREENER_MODEL, sd_decided_at = now\<rparr>,
       \<lparr>sd_id = i2, sd_paper_id = ?pid, sd_pass_number = 2,
              sd_decision = choice_name (sc_decision b), sd_rationale = sc_rationale b,
              sd_model = SCREENER_MODEL, sd_decided_at = now\<rparr>]"
    using dc(2) by simp
  ultimately show ?thesis
    using dc(3) same by (intro exI conjI) (assumption, assumption, simp, simp)
qed

lemma screen_one_effect:
  assumes st: "status_of (p_id paper) d = Some ''INGESTED''"
    and a: "screen_paper env paper spec 1 = Inr a"
    and b: "screen_paper env paper spec 2 = Inr b"
  shows "\<exists>stats' d' rs. screen_one env now spec paper stats d = (Inr stats', d')
    \<and> screening_decisions d' = screening_decisions d @ rs
    \<and> (\<forall>q. decisions_of q d' = (if q = p_id paper
          then decisions_of q d
            @ [(1, choice_name (sc_decision a)), (2, choice_name (sc_decision b))]
          else decisions_of q d))
    \<and> (\<forall>q. status_of q d' = (if q = p_id paper
          then Some (agreed_status (sc_decision a) (sc_decision b)) else status_of q d))"
proof -
  from screen_one_ok [OF assms, of now stats] obtain stats' d' rs where
    h: "screen_one env now spec paper stats d = (Inr stats', d')"
      "screening_decisions d' = screening_decisions d @ rs"
      "map (\<lambda>r. (sd_paper_id r, sd_pass_number r, sd_decision r)) rs
        = [(p_id paper, 1::int, choice_name (sc_decision a)),
           (p_id paper, 2::int, choice_name (sc_decision b))]"
      "\<forall>q. status_of q d' = (if q = p_id paper
          then Some (agreed_status (sc_decision a) (sc_decision b)) else status_of q d)"
    by (elim exE conjE) (rule that)
  from h(3) obtain r1 r2 where rs: "rs = [r1, r2]"
      "sd_paper_id r1 = p_id paper" "sd_pass_number r1 = 1"
      "sd_decision r1 = choice_name (sc_decision a)"
      "sd_paper_id r2 = p_id paper" "sd_pass_number r2 = 2"
      "sd_decision r2 = choice_name (sc_decision b)"
    by auto
  have "decisions_of q d' = (if q = p_id paper
          then decisions_of q d
            @ [(1, choice_name (sc_decision a)), (2, choice_name (sc_decision b))]
          else decisions_of q d)" for q
    using decisions_of_append [OF h(2), of q] rs by simp
  with h(1,2,4) show ?thesis by blast
qed

lemma run_screening_loop_ok:
  assumes "distinct (map p_id ps)"
    and "\<forall>p \<in> set ps. status_of (p_id p) d = Some ''INGESTED''"
    and "\<forall>p \<in> set ps. \<exists>a b. screen_paper env p spec 1 = Inr a \<and> screen_paper env p spec 2 = Inr b"
  shows "\<exists>stats' d' rs. run_screening_loop env now spec ps stats d = (Inr stats', d')
     \<and> screening_decisions d' = screening_decisions d @ rs
     \<and> (\<forall>p \<in> set ps. \<forall>a b.
           screen_paper env p spec 1 = Inr a \<and> screen_paper env p spec 2 = Inr b \<longrightarrow>
           decisions_of (p_id p) d' = decisions_of (p_id p) d
              @ [(1, choice_name (sc_decision a)), (2, choice_name (sc_decision b))]
           \<and> status_of (p_id p) d' = Some (agreed_status (sc_decision a) (sc_decision b)))
     \<and> (\<forall>q. q \<notin> p_id ` set ps \<longrightarrow>
           decisions_of q d' = decisions_of q d \<and> status_of q d' = status_of q d)"
  using assms
proof (induction ps arbitrary: stats d)
  case Nil
  show ?case by (intro exI [of _ stats] exI [of _ d] exI [of _ "[]"]) simp
next
  case (Cons p ps)
  from Cons.prems(3) obtain a b where
    ab: "screen_paper env p spec 1 = Inr a" "screen_paper env p spec 2 = Inr b"
    by auto
  from Cons.prems(2) have st: "status_of (p_id p) d = Some ''INGESTED''" by simp
  from screen_one_effect [OF st ab, of now stats] obtain stats1 d1 rs1 where
    one: "screen_one env now spec p stats d = (Inr stats1, d1)"
      "screening_decisions d1 = screening_decisions d @ rs1"
      "\<forall>q. decisions_of q d1 = (if q = p_id p
          then decisions_of q d
            @ [(1, choice_name (sc_decision a)), (2, choice_name (sc_decision b))]
          else decisions_of q d)"
      "\<forall>q. status_of q d1 = (if q = p_id p
          then Some (agreed_status (sc_decision a) (sc_decision b)) else status_of q d)"
    by blast
  have notin: "p_id p \<notin> p_id ` set ps" and dist: "distinct (map p_id ps)"
    using Cons.prems(1) by auto
  have other: "p_id p' \<noteq> p_id p" if "p' \<in> set ps" for p'
    using that notin by (metis imageI)
  have st1: "\<forall>p' \<in> set ps. status_of (p_id p') d1 = Some ''INGESTED''"
    using Cons.prems(2) one(4) other by simp
  have calls: "\<forall>p \<in> set ps. \<exists>a b. screen_paper env p spec 1 = Inr a \<and> screen_paper env p spec 2 = Inr b"
    using Cons.prems(3) by simp
  from Cons.IH [OF dist st1 calls, of stats1] obtain stats' d' rs' where
    rest: "run_screening_loop env now spec ps stats1 d1 = (Inr stats', d')"
      "screening_decisions d' = screening_decisions d1 @ rs'"
      "\<forall>p \<in> set ps. \<forall>a b.
           screen_paper env p spec 1 = Inr a \<and> screen_paper env p spec 2 = Inr b \<longrightarrow>
           decisions_of (p_id p) d' = decisions_of (p_id p) d1
              @ [(1, choice_name (sc_decision a)), (2, choice_name (sc_decision b))]
           \<and> status_of (p_id p) d' = Some (agreed_status (sc_decision a) (sc_decision b))"
      "\<forall>q. q \<notin> p_id ` set ps \<longrightarrow>
           decisions_of q d' = decisions_of q d1 \<and> status_of q d' = status_of q d1"
    by blast
  have 1: "run_screening_loop env now spec (p # ps) stats d = (Inr stats', d')"
    using one(1) rest(1) by simp
  have 2: "screening_decisions d' = screening_decisions d @ (rs1 @ rs')"
    using one(2) rest(2) by simp
  have 3: "decisions_of (p_id q) d' = decisions_of (p_id q) d
              @ [(1, choice_name (sc_decision a')), (2, choice_name (sc_decision b'))]
           \<and> status_of (p_id q) d' = Some (agreed_status (sc_decision a') (sc_decision b'))"
    if q: "q \<in> set (p # ps)"
      and ab': "screen_paper env q spec 1 = Inr a' \<and> screen_paper env q spec 2 = Inr b'"
    for q a' b'
  proof (cases "q \<in> set ps")
    case True
    then have "p_id q \<noteq> p_id p" by (rule other)
    with rest(3) True ab' one(3) show ?thesis by auto
  next
    case False
    with q have "q = p" by simp
    with ab ab' have "a' = a" "b' = b" by auto
    with rest(4) notin one(3,4) \<open>q = p\<close> show ?thesis by auto
  qed
  have 4: "decisions_of q d' = decisions_of q d \<and> status_of q d' = status_of q d"
    if "q \<notin> p_id ` set (p # ps)" for q
    using that rest(4) one(3,4) by auto
  from 1 2 3 4 show ?case by blast
qed

lemma find_by_distinct_key:
  "distinct (map f xs) \<Longrightarrow> x \<in> set xs \<Longrightarrow> find (\<lambda>y. f y = f x) xs = Some x"
  by (induction xs) (auto simp: image_iff)

text \<open>
  C9. In a store whose paper ids are pairwise distinct, and when both screening calls
  return for every \<open>INGESTED\<close> paper, \<open>run_screening\<close> returns, only appends to
  \<open>screening_decisions\<close>, and for every \<open>INGESTED\<close> paper appends exactly two decisions,
  pass 1 and pass 2 with the two answers; the paper's status becomes \<open>SCREENED_IN\<close> when
  both answers are include, \<open>SCREENED_OUT\<close> when both are exclude, and
  \<open>SCREEN_FLAGGED\<close> when they differ.
\<close>

theorem run_screening_dual_pass:
  assumes "distinct (map p_id (papers d))"
    and "\<forall>p \<in> set (get_papers_by_status ''INGESTED'' d).
          \<exists>a b. screen_paper env p spec 1 = Inr a \<and> screen_paper env p spec 2 = Inr b"
  shows "\<exists>stats d' rs. run_screening env now spec d = (Inr stats, d')
     \<and> screening_decisions d' = screening_decisions d @ rs
     \<and> (\<forall>p \<in> set (papers d). p_status p = ''INGESTED'' \<longrightarrow>
          (\<forall>a b. screen_paper env p spec 1 = Inr a \<and> screen_paper env p spec 2 = Inr b \<longrightarrow>
             decisions_of (p_id p) d' = decisions_of (p_id p) d
                @ [(1, choice_name (sc_decision a)), (2, choice_name (sc_decision b))]
             \<and> (sc_decision a = Include \<and> sc_decision b = Include \<longrightarrow>
                  status_of (p_id p) d' = Some ''SCREENED_IN'')
             \<and> (sc_decision a = Exclude \<and> sc_decision b = Exclude \<longrightarrow>
                  status_of (p_id p) d' = Some ''SCREENED_OUT'')
             \<and> (sc_decision a \<noteq> sc_decision b \<longrightarrow>
                  status_of (p_id p) d' = Some ''SCREEN_FLAGGED'')))"
proof -
  let ?ps = "get_papers_by_status ''INGESTED'' d"
  let ?stats = "\<lparr>ss_screened_in = 0, ss_screened_out = 0, ss_flagged = 0,
                  ss_total = int (length ?ps)\<rparr>"
  have dist: "distinct (map p_id ?ps)"
    using assms(1) by (simp add: get_papers_by_status_def distinct_map_filter)
  have st: "\<forall>p \<in> set ?ps. status_of (p_id p) d = Some ''INGESTED''"
    using find_by_distinct_key [OF assms(1)]
    by (auto simp: get_papers_by_status_def status_of_def)
  from run_screening_loop_ok [OF dist st assms(2), of now ?stats] obtain stats' d' rs where
    h: "run_screening_loop env now spec ?ps ?stats d = (Inr stats', d')"
      "screening_decisions d' = screening_decisions d @ rs"
      "\<forall>p \<in> set ?ps. \<forall>a b.
           screen_paper env p spec 1 = Inr a \<and> screen_paper env p spec 2 = Inr b \<longrightarrow>
           decisions_of (p_id p) d' = decisions_of (p_id p) d
              @ [(1, choice_name (sc_decision a)), (2, choice_name (sc_decision b))]
           \<and> status_of (p_id p) d' = Some (agreed_status (sc_decision a) (sc_decision b))"
    by (elim exE conjE) (rule that)
  have run: "run_screening env now spec d = (Inr stats', d')"
    using h(1) by (simp add: run_screening_def Let_def)
  have each: "decisions_of (p_id p) d' = decisions_of (p_id p) d
                @ [(1, choice_name (sc_decision a)), (2, choice_name (sc_decision b))]
             \<and> (sc_decision a = Include \<and> sc_decision b = Include \<longrightarrow>
                  status_of (p_id p) d' = Some ''SCREENED_IN'')
             \<and> (sc_decision a = Exclude \<and> sc_decision b = Exclude \<longrightarrow>
                  status_of (p_id p) d' = Some ''SCREENED_OUT'')
             \<and> (sc_decision a \<noteq> sc_decision b \<longrightarrow>
                  status_of (p_id p) d' = Some ''SCREEN_FLAGGED'')"
    if p: "p \<in> set (papers d)" "p_status p = ''INGESTED''"
      and ab: "screen_paper env p spec 1 = Inr a \<and> screen_paper env p spec 2 = Inr b"
    for p a b
  proof -
    from p have "p \<in> set ?ps" by (simp add: get_papers_by_status_def)
    with h(3) ab have
      "decisions_of (p_id p) d' = decisions_of (p_id p) d
              @ [(1, choice_name (sc_decision a)), (2, choice_name (sc_decision b))]"
      "status_of (p_id p) d' = Some (agreed_status (sc_decision a) (sc_decision b))"
      by blast+
    then show ?thesis
      by (cases "sc_decision a"; cases "sc_decision b") (simp_all add: agreed_status_def)
  qed
  from run h(2) each show ?thesis by blast
qed

definition env_screening :: collaborators where
  "env_screening =
    env_digital\<lparr>screen_paper := (\<lambda>p spec n.
      Inr \<lparr>sc_decision =
             (if p_id p = 1 then Include
              else if p_id p = 2 then Exclude
              else if n = 1 then Include else Exclude),
           sc_rationale = ''because'', sc_confidence = 1\<rparr>)\<rparr>"

definition store_three_ingested :: db where
  "store_three_ingested =
    snd (add_papers ''t0''
      [citation_no_pmid, citation_no_pmid\<lparr>title := ''Paper C''\<rparr>,
       citation_no_pmid\<lparr>title := ''Paper D''\<rparr>]
      (store_one_ingested\<lparr>papers := []\<rparr>))"

theorem run_screening_dual_pass_witness:
  "fst (run_screening env_screening ''t1'' spec_a store_three_ingested)
      = Inr \<lparr>ss_screened_in = 1, ss_screened_out = 1, ss_flagged = 1, ss_total = 3\<rparr>
   \<and> map (\<lambda>i. status_of i (snd (run_screening env_screening ''t1'' spec_a store_three_ingested)))
        [1, 2, 3]
      = [Some ''SCREENED_IN'', Some ''SCREENED_OUT'', Some ''SCREEN_FLAGGED'']
   \<and> decisions_of 3 (snd (run_screening env_screening ''t1'' spec_a store_three_ingested))
      = [(1, ''include''), (2, ''exclude'')]"
proof -
  let ?R = "run_screening env_screening ''t1'' spec_a store_three_ingested"
  let ?p1 = "paper_of_citation ''t0'' 1 citation_no_pmid"
  let ?p2 = "paper_of_citation ''t0'' 2 (citation_no_pmid\<lparr>title := ''Paper C''\<rparr>)"
  let ?p3 = "paper_of_citation ''t0'' 3 (citation_no_pmid\<lparr>title := ''Paper D''\<rparr>)"
  have ps: "papers store_three_ingested = [?p1, ?p2, ?p3]"
    by (simp add: store_three_ingested_def add_papers_def insert_paper_def truthy_def
        next_id_def citation_no_pmid_def store_one_ingested_def paper_of_citation_def)
  have dist: "distinct (map p_id (papers store_three_ingested))"
    by (simp add: ps paper_of_citation_def)
  have calls: "\<forall>p \<in> set (get_papers_by_status ''INGESTED'' store_three_ingested).
      \<exists>a b. screen_paper env_screening p spec_a 1 = Inr a
        \<and> screen_paper env_screening p spec_a 2 = Inr b"
    by (simp add: env_screening_def)
  have none: "screening_decisions store_three_ingested = []"
    by (simp add: store_three_ingested_def add_papers_def insert_paper_def truthy_def
        citation_no_pmid_def store_one_ingested_def)
  from run_screening_dual_pass [OF dist calls, of "''t1''"] obtain stats d' rs where
    h: "?R = (Inr stats, d')"
      "\<forall>p \<in> set (papers store_three_ingested). p_status p = ''INGESTED'' \<longrightarrow>
          (\<forall>a b. screen_paper env_screening p spec_a 1 = Inr a
                \<and> screen_paper env_screening p spec_a 2 = Inr b \<longrightarrow>
             decisions_of (p_id p) d' = decisions_of (p_id p) store_three_ingested
                @ [(1, choice_name (sc_decision a)), (2, choice_name (sc_decision b))]
             \<and> (sc_decision a = Include \<and> sc_decision b = Include \<longrightarrow>
                  status_of (p_id p) d' = Some ''SCREENED_IN'')
             \<and> (sc_decision a = Exclude \<and> sc_decision b = Exclude \<longrightarrow>
                  status_of (p_id p) d' = Some ''SCREENED_OUT'')
             \<and> (sc_decision a \<noteq> sc_decision b \<longrightarrow>
                  status_of (p_id p) d' = Some ''SCREEN_FLAGGED''))"
    by (elim exE conjE) (rule that)
  have d': "snd ?R = d'" using h(1) by simp
  have s1: "status_of 1 d' = Some ''SCREENED_IN''"
    using h(2) [rule_format, of ?p1] by (simp add: ps env_screening_def paper_of_citation_def)
  have s2: "status_of 2 d' = Some ''SCREENED_OUT''"
    using h(2) [rule_format, of ?p2] by (simp add: ps env_screening_def paper_of_citation_def)
  have s3: "status_of 3 d' = Some ''SCREEN_FLAGGED''"
    and d3: "decisions_of 3 d' = [(1, ''include''), (2, ''exclude'')]"
    using h(2) [rule_format, of ?p3] none
    by (simp_all add: ps env_screening_def choice_name_def decisions_of_def paper_of_citation_def)
  have stats: "fst ?R = Inr \<lparr>ss_screened_in = 1, ss_screened_out = 1, ss_flagged = 1, ss_total = 3\<rparr>"
    by (simp add: run_screening_def get_papers_by_status_def screen_one_def Let_def
        add_screening_decision_def update_status_def STATUSES_def allowed_from_def
        ALLOWED_TRANSITIONS_def env_screening_def choice_name_def next_id_def
        store_three_ingested_def add_papers_def insert_paper_def truthy_def
        citation_no_pmid_def store_one_ingested_def paper_of_citation_def)
  from s1 s2 s3 d3 stats show ?thesis by (simp add: d')
qed

subsection \<open>Collaborator failures in the stage runners\<close>

lemma parse_pdf_papers: "papers (snd (parse_pdf env now path pid d)) = papers d"
  by (auto simp: parse_pdf_def Let_def write_text_def split: sum.splits option.splits prod.splits)

lemma store_spans_papers: "papers (snd (store_spans ext_id spans d)) = papers d"
proof (induction spans arbitrary: d)
  case Nil
  show ?case by simp
next
  case (Cons sp spans)
  have "papers (snd (add_evidence_span ext_id (field_name sp) (span_value sp)
      (source_snippet sp) (confidence sp) d)) = papers d"
    by (simp add: add_evidence_span_def Let_def)
  with Cons.IH show ?case
    by (auto split: sum.splits prod.splits)
qed

lemma extract_paper_papers: "papers (snd (extract_paper env now pid text spec d)) = papers d"
proof -
  have a: "papers (snd (add_extraction now pid h xs tr m d)) = papers d" for h xs tr m
    by (simp add: add_extraction_def Let_def)
  show ?thesis
    using a store_spans_papers
    by (auto simp: extract_paper_def split: sum.splits prod.splits) (metis snd_conv)+
qed

text \<open>The sibling runners: a raise inside the \<open>try\<close> block of \<open>parse_all_pdfs\<close> or of
  \<open>run_extraction\<close> is caught, counted as failed, and leaves every paper row (so every
  status) as it was; the loop (a fold) goes on with the next paper.\<close>

lemma parse_one_catches:
  assumes "pdf_candidates env (p_id paper) = path # others"
    and "parse_pdf env now path (p_id paper) d = (Inl exc, d')"
  shows "parse_one env now paper (stats, d) = (stats\<lparr>ps_failed := ps_failed stats + 1\<rparr>, d')
    \<and> papers d' = papers d"
  using assms parse_pdf_papers [of env now path "p_id paper" d]
  by (simp add: parse_one_def Let_def)

lemma extract_one_catches:
  assumes "\<not> (\<exists>e \<in> set (extractions d). ex_paper_id e = p_id paper \<and> ex_schema_hash e = sh)"
    and "md_files (p_id paper) d = f # others"
    and "extract_paper env now (p_id paper) (snd f) spec d = (Inl exc, d')"
  shows "extract_one env now spec sh paper (stats, d)
      = (stats\<lparr>xs_failed := xs_failed stats + 1\<rparr>, d')
    \<and> papers d' = papers d"
  using assms extract_paper_papers [of env now "p_id paper" "snd f" spec d]
  by (auto simp: extract_one_def Let_def)

definition env_screening_fails :: collaborators where
  "env_screening_fails =
    env_screening\<lparr>screen_paper := (\<lambda>p spec n.
      if p_id p = 2 \<and> n = 2 then Inl (CollaboratorError ''model call failed'')
      else screen_paper env_screening p spec n)\<rparr>"

text \<open>
  C6 at a batch of three \<open>INGESTED\<close> papers where the second screening call for paper 2
  raises: \<open>run_screening\<close> does not catch it. The exception is the outcome of the
  runner, there is no tally, paper 2 keeps the one decision already written, and paper 3
  is never screened.
\<close>

theorem run_screening_propagates_model_error:
  "fst (run_screening env_screening_fails ''t1'' spec_a store_three_ingested)
      = Inl (CollaboratorError ''model call failed'')
   \<and> map (\<lambda>i. status_of i
          (snd (run_screening env_screening_fails ''t1'' spec_a store_three_ingested))) [1, 2, 3]
      = [Some ''SCREENED_IN'', Some ''INGESTED'', Some ''INGESTED'']
   \<and> map (\<lambda>i. decisions_of i
          (snd (run_screening env_screening_fails ''t1'' spec_a store_three_ingested))) [2, 3]
      = [[(1, ''exclude'')], []]"
proof -
  let ?p1 = "paper_of_citation ''t0'' 1 citation_no_pmid"
  let ?p2 = "paper_of_citation ''t0'' 2 (citation_no_pmid\<lparr>title := ''Paper C''\<rparr>)"
  let ?p3 = "paper_of_citation ''t0'' 3 (citation_no_pmid\<lparr>title := ''Paper D''\<rparr>)"
  have st: "store_three_ingested = store_one_ingested\<lparr>papers := [?p1, ?p2, ?p3]\<rparr>"
    by (simp add: store_three_ingested_def add_papers_def insert_paper_def truthy_def
        next_id_def citation_no_pmid_def store_one_ingested_def paper_of_citation_def)
  show ?thesis
    unfolding st
    by (simp add: run_screening_def get_papers_by_status_def screen_one_def Let_def
        add_screening_decision_def update_status_def STATUSES_def allowed_from_def
        ALLOWED_TRANSITIONS_def env_screening_fails_def env_screening_def choice_name_def
        next_id_def status_of_def decisions_of_def store_one_ingested_def
        paper_of_citation_def)
qed

subsection \<open>Citation deduplication\<close>

text \<open>The indexes of a deduplication state point into its list of unique records.\<close>

definition index_ok :: "dedup_state \<Rightarrow> bool" where
  "index_ok st =
    (ran (doi_index st) \<subseteq> {..<length (unique st)}
     \<and> ran (pmid_index st) \<subseteq> {..<length (unique st)}
     \<and> snd ` set (title_index st) \<subseteq> {..<length (unique st)})"

lemma ran_upd_subset: "ran (m(k \<mapsto> v)) \<subseteq> insert v (ran m)"
  by (auto simp: ran_def)

lemma find_match_cases:
  "find_match cit di pm ti = Some i \<Longrightarrow> i \<in> ran di \<or> i \<in> ran pm \<or> i \<in> snd ` set ti"
  by (auto simp: find_match_def Let_def ran_def find_Some_iff image_iff
      split: option.splits if_splits) (metis nth_mem snd_conv)+

lemma find_match_in_range:
  assumes "index_ok st"
    and "find_match cit (doi_index st) (pmid_index st) (title_index st) = Some i"
  shows "i < length (unique st)"
  using find_match_cases [OF assms(2)] assms(1) by (auto simp: index_ok_def)

lemma index_ok_index_citation:
  assumes "index_ok st"
  shows "index_ok (index_citation cit st)"
proof -
  have a: "ran (m(k \<mapsto> length (unique st))) \<subseteq> {..<Suc (length (unique st))}"
    if "ran m \<subseteq> {..<length (unique st)}" for m :: "string \<rightharpoonup> nat" and k
    using ran_upd_subset [of m k "length (unique st)"] that by auto
  have b: "ran m \<subseteq> {..<Suc (length (unique st))}"
    if "ran m \<subseteq> {..<length (unique st)}" for m :: "string \<rightharpoonup> nat"
    using that by auto
  from assms show ?thesis
    unfolding index_ok_def index_citation_def Let_def
    by (auto simp: a b split: option.splits intro: less_SucI dest: subsetD [OF a] subsetD [OF b])
qed

lemma merge_or_append_match:
  assumes "index_ok st"
    and "find_match oa (doi_index st) (pmid_index st) (title_index st) = Some i"
  shows "i < length (unique st)"
    and "merge_or_append oa st =
      Inr (st\<lparr>unique := (unique st)[i := merge (unique st ! i) oa],
               duplicate_pairs := duplicate_pairs st @ [(title (unique st ! i), title oa)]\<rparr>)"
proof -
  show i: "i < length (unique st)"
    using assms by (rule find_match_in_range)
  have "title (merge (unique st ! i) oa) = title (unique st ! i)"
    by (simp add: merge_def)
  with i assms(2) show "merge_or_append oa st =
      Inr (st\<lparr>unique := (unique st)[i := merge (unique st ! i) oa],
               duplicate_pairs := duplicate_pairs st @ [(title (unique st ! i), title oa)]\<rparr>)"
    by (simp add: merge_or_append_def Let_def)
qed

lemma merge_or_append_ok:
  assumes "index_ok st"
  shows "\<exists>st'. merge_or_append oa st = Inr st' \<and> index_ok st'
    \<and> length (unique st') + length (duplicate_pairs st')
        = Suc (length (unique st) + length (duplicate_pairs st))"
proof (cases "find_match oa (doi_index st) (pmid_index st) (title_index st)")
  case None
  then have "merge_or_append oa st = Inr (index_citation oa st)"
    by (simp add: merge_or_append_def)
  moreover have "index_ok (index_citation oa st)"
    using assms by (rule index_ok_index_citation)
  moreover have "length (unique (index_citation oa st)) = Suc (length (unique st))"
    "duplicate_pairs (index_citation oa st) = duplicate_pairs st"
    by (simp_all add: index_citation_def Let_def)
  ultimately show ?thesis by simp
next
  case (Some i)
  note m = merge_or_append_match [OF assms Some]
  let ?st' = "st\<lparr>unique := (unique st)[i := merge (unique st ! i) oa],
               duplicate_pairs := duplicate_pairs st @ [(title (unique st ! i), title oa)]\<rparr>"
  have "index_ok ?st'"
    using assms by (simp add: index_ok_def)
  with m(2) show ?thesis by simp
qed

lemma openalex_loop_ok:
  assumes "index_ok st"
  shows "\<exists>st'. openalex_loop cits st = Inr st' \<and> index_ok st'
    \<and> length (unique st') + length (duplicate_pairs st')
        = length (unique st) + length (duplicate_pairs st) + length cits"
  using assms
proof (induction cits arbitrary: st)
  case Nil
  then show ?case by simp
next
  case (Cons c cits)
  from merge_or_append_ok [OF Cons.prems, of c] obtain st1 where
    1: "merge_or_append c st = Inr st1" "index_ok st1"
      "length (unique st1) + length (duplicate_pairs st1)
        = Suc (length (unique st) + length (duplicate_pairs st))"
    by blast
  from Cons.IH [OF 1(2)] obtain st' where
    2: "openalex_loop cits st1 = Inr st'" "index_ok st'"
      "length (unique st') + length (duplicate_pairs st')
        = length (unique st1) + length (duplicate_pairs st1) + length cits"
    by blast
  from 1 2 show ?case by simp
qed

lemma fold_index_citation_ok:
  assumes "index_ok st"
  shows "index_ok (fold index_citation cits st)
    \<and> length (unique (fold index_citation cits st)) = length (unique st) + length cits
    \<and> duplicate_pairs (fold index_citation cits st) = duplicate_pairs st"
  using assms
proof (induction cits arbitrary: st)
  case Nil
  then show ?case by simp
next
  case (Cons c cits)
  have "index_ok (index_citation c st)"
    using Cons.prems by (rule index_ok_index_citation)
  from Cons.IH [OF this] show ?case
    by (simp add: index_citation_def Let_def)
qed

lemma deduplicate_returns:
  "\<exists>r. deduplicate pms oas = Inr r
    \<and> length (unique_citations r) + length (result_duplicate_pairs r) = length pms + length oas"
proof -
  let ?e = "\<lparr>doi_index = Map.empty, pmid_index = Map.empty, title_index = [],
             unique = [], duplicate_pairs = []\<rparr>"
  have "index_ok ?e" by (simp add: index_ok_def)
  from fold_index_citation_ok [OF this, of pms]
  have 0: "index_ok (fold index_citation pms ?e)"
    "length (unique (fold index_citation pms ?e)) = length pms"
    "duplicate_pairs (fold index_citation pms ?e) = []"
    by simp_all
  from openalex_loop_ok [OF 0(1), of oas] obtain st' where
    "openalex_loop oas (fold index_citation pms ?e) = Inr st'"
    "length (unique st') + length (duplicate_pairs st') = length pms + length oas"
    using 0(2,3) by auto
  then show ?thesis
    by (simp add: deduplicate_def Let_def)
qed

text \<open>
  C8. The record \<open>_merge\<close> returns is the primary record with its gaps filled: title,
  source and raw data are the primary's; each of doi, pmid, abstract, journal and year is
  the primary's value when it has one and the secondary's otherwise; the authors are the
  primary's unless that list is empty. In the merge loop, a secondary record that matches
  entry \<open>i\<close> (in a state whose indexes point into the list, as every state of
  \<open>deduplicate\<close> does) replaces entry \<open>i\<close> by this merge, is not appended, and adds the
  pair (kept title, its own title) to the log. \<open>deduplicate\<close> always returns, and every
  secondary record is either appended or logged as a duplicate.
\<close>

theorem merge_keeps_primary:
  "title (merge p s) = title p \<and> source (merge p s) = source p
   \<and> raw_data (merge p s) = raw_data p
   \<and> doi (merge p s) = (case doi p of None \<Rightarrow> doi s | Some x \<Rightarrow> Some x)
   \<and> pmid (merge p s) = (case pmid p of None \<Rightarrow> pmid s | Some x \<Rightarrow> Some x)
   \<and> abstract (merge p s) = (case abstract p of None \<Rightarrow> abstract s | Some x \<Rightarrow> Some x)
   \<and> journal (merge p s) = (case journal p of None \<Rightarrow> journal s | Some x \<Rightarrow> Some x)
   \<and> year (merge p s) = (case year p of None \<Rightarrow> year s | Some x \<Rightarrow> Some x)
   \<and> authors (merge p s) = (if authors p = [] then authors s else authors p)
   \<and> (index_ok st \<and> find_match oa (doi_index st) (pmid_index st) (title_index st) = Some i \<longrightarrow>
        i < length (unique st)
        \<and> merge_or_append oa st =
            Inr (st\<lparr>unique := (unique st)[i := merge (unique st ! i) oa],
                     duplicate_pairs := duplicate_pairs st
                        @ [(title (unique st ! i), title oa)]\<rparr>))
   \<and> (index_ok st \<longrightarrow> index_ok (index_citation oa st)
        \<and> (\<forall>st'. merge_or_append oa st = Inr st' \<longrightarrow> index_ok st'))
   \<and> (\<exists>r. deduplicate pms oas = Inr r
        \<and> length (unique_citations r) + length (result_duplicate_pairs r)
            = length pms + length oas)"
proof (intro conjI impI allI)
  show "\<exists>r. deduplicate pms oas = Inr r
        \<and> length (unique_citations r) + length (result_duplicate_pairs r)
            = length pms + length oas"
    by (rule deduplicate_returns)
next
  assume a: "index_ok st \<and> find_match oa (doi_index st) (pmid_index st) (title_index st) = Some i"
  then show "i < length (unique st)"
    using merge_or_append_match(1) by blast
  from a show "merge_or_append oa st =
            Inr (st\<lparr>unique := (unique st)[i := merge (unique st ! i) oa],
                     duplicate_pairs := duplicate_pairs st
                        @ [(title (unique st ! i), title oa)]\<rparr>)"
    using merge_or_append_match(2) by blast
next
  assume "index_ok st"
  then show "index_ok (index_citation oa st)"
    by (rule index_ok_index_citation)
next
  fix st'
  assume "index_ok st" "merge_or_append oa st = Inr st'"
  then show "index_ok st'"
    using merge_or_append_ok [of st oa] by auto
qed (simp_all add: merge_def split: option.splits)

definition dedup_start :: dedup_state where
  "dedup_start =
    \<lparr>doi_index = Map.empty, pmid_index = Map.empty, title_index = [],
     unique = [], duplicate_pairs = []\<rparr>"

definition pubmed_record :: Citation where
  "pubmed_record =
    \<lparr>pmid = Some ''1'', doi = None, title = ''Study A'', abstract = Some ''PubMed abstract'',
     authors = [], journal = None, year = None, source = Pubmed, raw_data = []\<rparr>"

definition openalex_record :: Citation where
  "openalex_record =
    \<lparr>pmid = Some '' 1'', doi = Some ''10.1/B'', title = ''Study A (preprint)'',
     abstract = Some ''OpenAlex abstract'', authors = [''Doe J''],
     journal = Some ''OA Journal'', year = Some 2023, source = Openalex, raw_data = []\<rparr>"

theorem merge_keeps_primary_witness:
  "merge_or_append openalex_record (index_citation pubmed_record dedup_start) =
     Inr ((index_citation pubmed_record dedup_start)
        \<lparr>unique := [pubmed_record\<lparr>doi := Some ''10.1/B'', authors := [''Doe J''],
                      journal := Some ''OA Journal'', year := Some 2023\<rparr>],
         duplicate_pairs := [(''Study A'', ''Study A (preprint)'')]\<rparr>)
   \<and> abstract (merge pubmed_record openalex_record) = Some ''PubMed abstract''"
proof -
  let ?st = "index_citation pubmed_record dedup_start"
  have ok0: "index_ok dedup_start"
    by (simp add: index_ok_def dedup_start_def)
  from merge_keeps_primary [where st = dedup_start and oa = pubmed_record] ok0
  have ok: "index_ok ?st" by blast
  have u: "unique ?st = [pubmed_record]" "duplicate_pairs ?st = []"
    by (simp_all add: index_citation_def dedup_start_def Let_def)
  have m: "find_match openalex_record (doi_index ?st) (pmid_index ?st) (title_index ?st) = Some 0"
    by (simp add: find_match_def index_citation_def dedup_start_def Let_def pubmed_record_def
        openalex_record_def py_strip_def py_isspace_def)
  have mg: "merge pubmed_record openalex_record
      = pubmed_record\<lparr>doi := Some ''10.1/B'', authors := [''Doe J''],
                      journal := Some ''OA Journal'', year := Some 2023\<rparr>"
    by (simp add: merge_def pubmed_record_def openalex_record_def)
  have t: "title pubmed_record = ''Study A''" "title openalex_record = ''Study A (preprint)''"
    by (simp_all add: pubmed_record_def openalex_record_def)
  from merge_keeps_primary [where st = ?st and oa = openalex_record and i = 0] ok m
  have "merge_or_append openalex_record ?st =
      Inr (?st\<lparr>unique := (unique ?st)[0 := merge (unique ?st ! 0) openalex_record],
               duplicate_pairs := duplicate_pairs ?st
                  @ [(title (unique ?st ! 0), title openalex_record)]\<rparr>)"
    by blast
  moreover from merge_keeps_primary [where p = pubmed_record and s = openalex_record]
  have "abstract (merge pubmed_record openalex_record) = Some ''PubMed abstract''"
    by (simp add: pubmed_record_def)
  ultimately show ?thesis
    by (simp add: u mg t)
qed

lemma similar_trailing_period_and_case:
  "9 / 10 < title_similarity (normalize_title ''Autonomous suturing with the STAR robot'')
      (normalize_title ''autonomous Suturing with the star Robot.'')"
  by code_simp

lemma dissimilar_unrelated_titles:
  "\<not> 9 / 10 < title_similarity (normalize_title ''Study Alpha'')
      (normalize_title ''Completely Different Study'')"
  by code_simp

text \<open>
  C7. \<open>_find_match\<close> tries three keys in order and returns the first hit: the index
  stored for the record's DOI, trimmed and lower-cased, when the DOI is non-empty and the
  key is in the DOI index; otherwise the index stored for its trimmed PMID, when the PMID
  is non-empty and the key is in the PMID index; otherwise the index of the first entry of
  the title index whose title has a similarity ratio above 0.9 with the record's
  normalised title, and nothing when no entry has. The titles in the index are normalised
  when a record is indexed. A title that differs by case and a trailing period matches;
  two unrelated titles do not.
\<close>

theorem find_match_priority:
  "(\<forall>s i. doi cit = Some s \<and> s \<noteq> [] \<and> di (py_lower (py_strip s)) = Some i \<longrightarrow>
      find_match cit di pm ti = Some i)
   \<and> ((\<forall>s. doi cit = Some s \<and> s \<noteq> [] \<longrightarrow> di (py_lower (py_strip s)) = None) \<longrightarrow>
      (\<forall>s i. pmid cit = Some s \<and> s \<noteq> [] \<and> pm (py_strip s) = Some i \<longrightarrow>
         find_match cit di pm ti = Some i)
      \<and> ((\<forall>s. pmid cit = Some s \<and> s \<noteq> [] \<longrightarrow> pm (py_strip s) = None) \<longrightarrow>
           find_match cit di pm ti
             = map_option snd
                 (find (\<lambda>entry. 9 / 10 < title_similarity (normalize_title (title cit)) (fst entry)) ti)
           \<and> (find_match cit di pm ti = None \<longleftrightarrow>
                (\<forall>entry \<in> set ti.
                   \<not> 9 / 10 < title_similarity (normalize_title (title cit)) (fst entry)))))
   \<and> title_index (index_citation cit st)
       = title_index st @ [(normalize_title (title cit), length (unique st))]
   \<and> 9 / 10 < title_similarity (normalize_title ''Autonomous suturing with the STAR robot'')
        (normalize_title ''autonomous Suturing with the star Robot.'')
   \<and> \<not> 9 / 10 < title_similarity (normalize_title ''Study Alpha'')
        (normalize_title ''Completely Different Study'')"
proof (intro conjI allI impI)
  fix s i
  assume "doi cit = Some s \<and> s \<noteq> [] \<and> di (py_lower (py_strip s)) = Some i"
  then show "find_match cit di pm ti = Some i"
    by (simp add: find_match_def)
next
  assume nodoi: "\<forall>s. doi cit = Some s \<and> s \<noteq> [] \<longrightarrow> di (py_lower (py_strip s)) = None"
  then have d: "(case doi cit of None \<Rightarrow> None
      | Some s \<Rightarrow> if s \<noteq> [] then di (py_lower (py_strip s)) else None) = None"
    by (auto split: option.splits)
  {
    fix s i
    assume "pmid cit = Some s \<and> s \<noteq> [] \<and> pm (py_strip s) = Some i"
    then show "find_match cit di pm ti = Some i"
      using d by (simp add: find_match_def)
  }
  assume nopmid: "\<forall>s. pmid cit = Some s \<and> s \<noteq> [] \<longrightarrow> pm (py_strip s) = None"
  then have p: "(case pmid cit of None \<Rightarrow> None
      | Some s \<Rightarrow> if s \<noteq> [] then pm (py_strip s) else None) = None"
    by (auto split: option.splits)
  show t: "find_match cit di pm ti
      = map_option snd
          (find (\<lambda>entry. 9 / 10 < title_similarity (normalize_title (title cit)) (fst entry)) ti)"
    using d p by (simp add: find_match_def Let_def)
  show "find_match cit di pm ti = None \<longleftrightarrow>
      (\<forall>entry \<in> set ti.
          \<not> 9 / 10 < title_similarity (normalize_title (title cit)) (fst entry))"
    unfolding t by (auto simp: find_None_iff)
next
  show "title_index (index_citation cit st)
       = title_index st @ [(normalize_title (title cit), length (unique st))]"
    by (simp add: index_citation_def Let_def)
next
  show "9 / 10 < title_similarity (normalize_title ''Autonomous suturing with the STAR robot'')
        (normalize_title ''autonomous Suturing with the star Robot.'')"
    by (rule similar_trailing_period_and_case)
next
  show "\<not> 9 / 10 < title_similarity (normalize_title ''Study Alpha'')
        (normalize_title ''Completely Different Study'')"
    by (rule dissimilar_unrelated_titles)
qed


definition titled :: "string \<Rightarrow> Citation" where
  "titled t =
    \<lparr>pmid = None, doi = None, title = t, abstract = None, authors = [], journal = None,
     year = None, source = Openalex, raw_data = []\<rparr>"

definition sample_doi_index :: "string \<rightharpoonup> nat" where
  "sample_doi_index = [''10.1/a'' \<mapsto> 0]"

definition sample_pmid_index :: "string \<rightharpoonup> nat" where
  "sample_pmid_index = [''1'' \<mapsto> 1]"

definition sample_title_index :: "(string \<times> nat) list" where
  "sample_title_index = [(''study a'', 0), (''other work'', 1)]"

theorem find_match_priority_witness:
  "find_match ((titled ''Unrelated'')\<lparr>doi := Some '' 10.1/A '', pmid := Some ''1''\<rparr>)
      sample_doi_index sample_pmid_index sample_title_index = Some 0
   \<and> find_match ((titled ''Study A'')\<lparr>doi := Some ''10.9/zz'', pmid := Some '' 1 ''\<rparr>)
      sample_doi_index sample_pmid_index sample_title_index = Some 1
   \<and> find_match (titled ''Study A.'') sample_doi_index sample_pmid_index sample_title_index
      = Some 0
   \<and> find_match (titled ''Gut Flora'') sample_doi_index sample_pmid_index sample_title_index
      = None
   \<and> find_match (titled ''Autonomous suturing with the STAR robot'') Map.empty Map.empty
        [(normalize_title ''autonomous Suturing with the star Robot.'', 0)] = Some 0
   \<and> find_match (titled ''Study Alpha'') Map.empty Map.empty
        [(normalize_title ''Completely Different Study'', 0)] = None"
proof -
  let ?c1 = "(titled ''Unrelated'')\<lparr>doi := Some '' 10.1/A '', pmid := Some ''1''\<rparr>"
  let ?c2 = "(titled ''Study A'')\<lparr>doi := Some ''10.9/zz'', pmid := Some '' 1 ''\<rparr>"
  let ?c3 = "titled ''Study A.''"
  let ?c4 = "titled ''Gut Flora''"
  let ?c5 = "titled ''Autonomous suturing with the STAR robot''"
  let ?c6 = "titled ''Study Alpha''"
  let ?t5 = "[(normalize_title ''autonomous Suturing with the star Robot.'', 0::nat)]"
  let ?t6 = "[(normalize_title ''Completely Different Study'', 0::nat)]"
  note inst = find_match_priority [where di = sample_doi_index and pm = sample_pmid_index
      and ti = sample_title_index]
  have k1: "py_lower (py_strip '' 10.1/A '') = ''10.1/a''"
    by (simp add: py_lower_def py_lower_char_def py_strip_def py_isspace_def)
  have k2: "py_strip '' 1 '' = ''1''"
    by (simp add: py_strip_def py_isspace_def)
  have h1: "doi ?c1 = Some '' 10.1/A '' \<and> '' 10.1/A '' \<noteq> []
      \<and> sample_doi_index (py_lower (py_strip '' 10.1/A '')) = Some 0"
    by (simp add: k1 titled_def sample_doi_index_def)
  from inst [where cit = ?c1] h1 have 1: "find_match ?c1 sample_doi_index sample_pmid_index
      sample_title_index = Some 0"
    by blast
  have nodoi2: "\<forall>s. doi ?c2 = Some s \<and> s \<noteq> [] \<longrightarrow> sample_doi_index (py_lower (py_strip s)) = None"
    by (simp add: titled_def sample_doi_index_def py_lower_def py_lower_char_def py_strip_def
        py_isspace_def)
  have h2: "pmid ?c2 = Some '' 1 '' \<and> '' 1 '' \<noteq> [] \<and> sample_pmid_index (py_strip '' 1 '') = Some 1"
    by (simp add: k2 titled_def sample_pmid_index_def)
  from inst [where cit = ?c2] nodoi2 h2 have 2: "find_match ?c2 sample_doi_index sample_pmid_index
      sample_title_index = Some 1"
    by blast
  have nod: "\<forall>s. doi (titled t) = Some s \<and> s \<noteq> [] \<longrightarrow> di (py_lower (py_strip s)) = None"
    for t and di :: "string \<rightharpoonup> nat"
    by (simp add: titled_def)
  have nop: "\<forall>s. pmid (titled t) = Some s \<and> s \<noteq> [] \<longrightarrow> pm (py_strip s) = None"
    for t and pm :: "string \<rightharpoonup> nat"
    by (simp add: titled_def)
  have tt: "title (titled t) = t" for t
    by (simp add: titled_def)
  from inst [where cit = ?c3] nod [where t = "''Study A.''" and di = sample_doi_index]
    nop [where t = "''Study A.''" and pm = sample_pmid_index]
  have "find_match ?c3 sample_doi_index sample_pmid_index sample_title_index
      = map_option snd (find (\<lambda>entry. 9 / 10 < title_similarity
          (normalize_title (title ?c3)) (fst entry)) sample_title_index)"
    by blast
  also have "\<dots> = Some 0"
    by code_simp
  finally have 3: "find_match ?c3 sample_doi_index sample_pmid_index sample_title_index = Some 0" .
  from inst [where cit = ?c4] nod [where t = "''Gut Flora''" and di = sample_doi_index]
    nop [where t = "''Gut Flora''" and pm = sample_pmid_index]
  have "find_match ?c4 sample_doi_index sample_pmid_index sample_title_index
      = map_option snd (find (\<lambda>entry. 9 / 10 < title_similarity
          (normalize_title (title ?c4)) (fst entry)) sample_title_index)"
    by blast
  also have "\<dots> = None"
    by code_simp
  finally have 4: "find_match ?c4 sample_doi_index sample_pmid_index sample_title_index = None" .
  note fm = find_match_priority [where di = Map.empty and pm = Map.empty]
  from fm [where cit = ?c5 and ti = ?t5]
  have near: "9 / 10 < title_similarity (normalize_title ''Autonomous suturing with the STAR robot'')
        (normalize_title ''autonomous Suturing with the star Robot.'')"
    by blast
  from fm [where cit = ?c5 and ti = ?t5]
    nod [where t = "''Autonomous suturing with the STAR robot''" and di = Map.empty]
    nop [where t = "''Autonomous suturing with the STAR robot''" and pm = Map.empty]
  have "find_match ?c5 Map.empty Map.empty ?t5
      = map_option snd (find (\<lambda>entry. 9 / 10 < title_similarity
          (normalize_title (title ?c5)) (fst entry)) ?t5)"
    by blast
  with near have 5: "find_match ?c5 Map.empty Map.empty ?t5 = Some 0"
    by (simp add: tt)
  from fm [where cit = ?c6 and ti = ?t6]
  have far: "\<not> 9 / 10 < title_similarity (normalize_title ''Study Alpha'')
        (normalize_title ''Completely Different Study'')"
    by blast
  from fm [where cit = ?c6 and ti = ?t6] nod [where t = "''Study Alpha''" and di = Map.empty]
    nop [where t = "''Study Alpha''" and pm = Map.empty]
  have "find_match ?c6 Map.empty Map.empty ?t6 = None \<longleftrightarrow>
      (\<forall>entry \<in> set ?t6.
          \<not> 9 / 10 < title_similarity (normalize_title (title ?c6)) (fst entry))"
    by blast
  with far have 6: "find_match ?c6 Map.empty Map.empty ?t6 = None"
    by (simp add: tt)
  from 1 2 3 4 5 6 show ?thesis by blast
qed

end
